theory Spec2Isabelle
  imports Main "HOL-Library.Sublist"
begin

section \<open>Python values used by both scripts\<close>

text \<open>
  Python text is modelled as \<^typ>\<open>string\<close>: one \<^typ>\<open>char\<close> per code point, for the
  code points below 256. A raised exception is the left summand of the result,
  a returned value the right one.
\<close>

datatype exn =
    CalledProcessError int "string list"
  | FileNotFoundError string
  | TemplateError string
  | OtherError string

text \<open>\<^verbatim>\<open>sep.join(xs)\<close>.\<close>

fun join :: "string \<Rightarrow> string list \<Rightarrow> string" where
  "join sep [] = []"
| "join sep [x] = x"
| "join sep (x # y # ys) = x @ sep @ join sep (y # ys)"

text \<open>
  \<^verbatim>\<open>s.replace(old, new)\<close>: the text is scanned from the left; where \<open>old\<close> starts it is
  replaced and the scan goes on behind it, so the occurrences replaced do not overlap.
  An empty \<open>old\<close> matches before every character and at the end.
\<close>

fun replace_scan :: "string \<Rightarrow> string \<Rightarrow> string \<Rightarrow> string" where
  "replace_scan old new [] = []"
| "replace_scan old new (c # cs) =
     (if old \<noteq> [] \<and> prefix old (c # cs)
      then new @ replace_scan old new (drop (length old) (c # cs))
      else c # replace_scan old new cs)"

definition replace :: "string \<Rightarrow> string \<Rightarrow> string \<Rightarrow> string" where
  "replace old new s =
     (if old = [] then new @ concat (map (\<lambda>c. c # new) s) else replace_scan old new s)"

text \<open>
  \<^verbatim>\<open>str.isspace\<close> on one character; the same class is \<^verbatim>\<open>\s\<close> of a text pattern and what
  \<^verbatim>\<open>str.strip()\<close> removes.
\<close>

definition isspace :: "char \<Rightarrow> bool" where
  "isspace c \<longleftrightarrow>
     c \<in> set [CHR 0x09, CHR 0x0A, CHR 0x0B, CHR 0x0C, CHR 0x0D, CHR 0x1C, CHR 0x1D,
              CHR 0x1E, CHR 0x1F, CHR 0x20, CHR 0x85, CHR 0xA0]"

definition strip :: "string \<Rightarrow> string" where
  "strip s = rev (dropWhile isspace (rev (dropWhile isspace s)))"

section \<open>The build orchestrator: \<^verbatim>\<open>ci/ci/compile_for_board.py\<close>\<close>

text \<open>
  \<^verbatim>\<open>Board\<close> comes from \<^verbatim>\<open>ci.boards\<close>; the orchestrator reads its \<^verbatim>\<open>board_name\<close> only.
\<close>

record Board =
  board_name :: string

text \<open>
  What the module does to the outside is kept in a trace: the texts handed to
  \<^verbatim>\<open>locked_print\<close>, the argument lists handed to \<^verbatim>\<open>subprocess.run\<close>, and entering and
  leaving \<^verbatim>\<open>with FIRST_BUILD_LOCK\<close>.
\<close>

datatype event =
    Print string
  | Subprocess "string list"
  | Acquire
  | Release

text \<open>
  The operating system and the library functions the module calls, over a state \<open>'w\<close> of
  the outside world (file system, build tool):
  \<^item> \<open>environ\<close>: \<^verbatim>\<open>os.environ\<close> when the module is imported;
  \<^item> \<open>path_join a b\<close>: \<^verbatim>\<open>(Path(a) / b).as_posix()\<close>;
  \<^item> \<open>path_exists\<close>, \<open>path_mkdir\<close>: \<^verbatim>\<open>Path.exists\<close> and
    \<^verbatim>\<open>Path.mkdir(parents=True, exist_ok=True)\<close>;
  \<^item> \<open>subprocess_run\<close>: the exit code and the captured text of a command;
  \<^item> \<open>list2cmdline\<close>: \<^verbatim>\<open>subprocess.list2cmdline\<close>.
\<close>

record 'w build_sys =
  environ :: "string \<rightharpoonup> string"
  path_join :: "string \<Rightarrow> string \<Rightarrow> string"
  path_exists :: "string \<Rightarrow> 'w \<Rightarrow> bool"
  path_mkdir :: "string \<Rightarrow> 'w \<Rightarrow> 'w"
  subprocess_run :: "string list \<Rightarrow> 'w \<Rightarrow> (int \<times> string) \<times> 'w"
  list2cmdline :: "string list \<Rightarrow> string"

text \<open>The module's global \<^verbatim>\<open>ERROR_HAPPENED\<close>, the outside world and the trace.\<close>

record 'w state =
  ERROR_HAPPENED :: bool
  world :: 'w
  trace :: "event list"

text \<open>The module is loaded with \<^verbatim>\<open>ERROR_HAPPENED = False\<close>.\<close>

definition initial_state :: "'w \<Rightarrow> 'w state" where
  "initial_state w = \<lparr>ERROR_HAPPENED = False, world = w, trace = []\<rparr>"

definition IS_GITHUB :: "'w build_sys \<Rightarrow> bool" where
  "IS_GITHUB E \<longleftrightarrow> ''GITHUB_ACTIONS'' \<in> dom (environ E)"

definition USE_FIRST_BUILD_LOCK :: "'w build_sys \<Rightarrow> bool" where
  "USE_FIRST_BUILD_LOCK E \<longleftrightarrow> IS_GITHUB E"

definition errors_happened :: "'w state \<Rightarrow> bool \<times> 'w state" where
  "errors_happened st = (ERROR_HAPPENED st, st)"

definition locked_print :: "string \<Rightarrow> 'w state \<Rightarrow> 'w state" where
  "locked_print s st = st\<lparr>trace := trace st @ [Print s]\<rparr>"

definition run_subprocess ::
  "'w build_sys \<Rightarrow> string list \<Rightarrow> 'w state \<Rightarrow> (int \<times> string) \<times> 'w state" where
  "run_subprocess E cmd st =
     (case subprocess_run E cmd (world st) of
        (r, w) \<Rightarrow> (r, st\<lparr>world := w, trace := trace st @ [Subprocess cmd]\<rparr>))"

text \<open>Lines 27 to 29: the build directory of the board and its \<^verbatim>\<open>src\<close> directory.\<close>

definition builddir_of :: "'w build_sys \<Rightarrow> string \<Rightarrow> string option \<Rightarrow> string" where
  "builddir_of E board build_dir =
     (case build_dir of
        None \<Rightarrow> path_join E ''.build'' board
      | Some d \<Rightarrow> if d \<noteq> [] then path_join E d board else path_join E ''.build'' board)"

text \<open>Lines 35 to 45: the command of the build tool.\<close>

definition cmd_list_of :: "string \<Rightarrow> string \<Rightarrow> string \<Rightarrow> string list" where
  "cmd_list_of board builddir example =
     [''pio'', ''ci'', ''--board'', board, ''--lib=ci'', ''--lib=src'', ''--keep-build-dir'',
      ''--build-dir='' @ builddir] @ [''examples/'' @ example @ ''/*ino'']"

text \<open>
  Lines 63 to 66: both spellings of the library path are rewritten in the captured text,
  whatever the exit code is.
\<close>

definition normalize_paths :: "string \<Rightarrow> string" where
  "normalize_paths out =
     replace (''lib'' @ [CHR 0x5C] @ ''src'') ''src'' (replace ''lib/src'' ''src'' out)"

text \<open>
  Lines 28 to 33 of \<^verbatim>\<open>compile_for_board_and_example\<close>: the build directory is created and
  the \<^verbatim>\<open>src\<close> directory of the previous build removed.
  \<^verbatim>\<open>subprocess.run(["rm", "-rf", ...], check=True)\<close> raises \<^verbatim>\<open>CalledProcessError\<close> on a
  non-zero exit code.
\<close>

definition remove_previous_src ::
  "'w build_sys \<Rightarrow> string \<Rightarrow> 'w state \<Rightarrow> exn option \<times> 'w state" where
  "remove_previous_src E builddir st0 =
     (let st1 = st0\<lparr>world := path_mkdir E builddir (world st0)\<rparr>;
          srcdir = path_join E builddir ''src''
      in if path_exists E srcdir (world st1)
         then (case run_subprocess E [''rm'', ''-rf'', srcdir] st1 of
                 ((rc, _), st2) \<Rightarrow>
                   (if rc \<noteq> 0 then Some (CalledProcessError rc [''rm'', ''-rf'', srcdir])
                    else None, st2))
         else (None, st1))"

text \<open>
  Lines 34 to 72: the build tool runs with \<^verbatim>\<open>check=False\<close>, its output and error
  streams captured together as text.
\<close>

definition run_build_tool ::
  "'w build_sys \<Rightarrow> string \<Rightarrow> string \<Rightarrow> string \<Rightarrow> 'w state \<Rightarrow> (bool \<times> string) \<times> 'w state" where
  "run_build_tool E board builddir example st2 =
     (let st3 = locked_print
            (''*** Building example '' @ example @ '' for board '' @ board @ '' ***'') st2;
          cmd_list = cmd_list_of board builddir example;
          cmd_str = list2cmdline E cmd_list;
          msg_lsit = [''\<newline>\<newline>******************************'',
                      ''* Running command:'',
                      ''*     '' @ cmd_str,
                      ''******************************\<newline>''];
          msg = join ''\<newline>'' msg_lsit;
          st4 = locked_print msg st3
      in case run_subprocess E cmd_list st4 of
           ((returncode, out), st5) \<Rightarrow>
             (let stdout = normalize_paths out;
                  st6 = locked_print stdout st5
              in if returncode \<noteq> 0
                 then ((False, stdout),
                       locked_print (''*** Error compiling example '' @ example
                         @ '' for board '' @ board @ '' ***'') st6)
                 else ((True, stdout),
                       locked_print (''*** Finished building example '' @ example
                         @ '' for board '' @ board @ '' ***'') st6)))"

definition compile_for_board_and_example ::
  "'w build_sys \<Rightarrow> Board \<Rightarrow> string \<Rightarrow> string option \<Rightarrow> 'w state
     \<Rightarrow> (exn + bool \<times> string) \<times> 'w state" where
  "compile_for_board_and_example E project example build_dir st0 =
     (let board = board_name project;
          builddir = builddir_of E board build_dir
      in case remove_previous_src E builddir st0 of
           (Some e, st2) \<Rightarrow> (Inl e, st2)
         | (None, st2) \<Rightarrow>
             (case run_build_tool E board builddir example st2 of
                (r, st7) \<Rightarrow> (Inr r, st7)))"

text \<open>
  Lines 89 to 99 of \<^verbatim>\<open>compile_examples\<close>: the compile of one example, inside
  \<^verbatim>\<open>with FIRST_BUILD_LOCK\<close> when it is the first one and \<^verbatim>\<open>USE_FIRST_BUILD_LOCK\<close> holds.
  Leaving the \<^verbatim>\<open>with\<close> block releases the lock, also when the compile raised.
\<close>

definition first_build_compile ::
  "'w build_sys \<Rightarrow> bool \<Rightarrow> Board \<Rightarrow> string \<Rightarrow> string option \<Rightarrow> 'w state
     \<Rightarrow> (exn + bool \<times> string) \<times> 'w state" where
  "first_build_compile E is_first project example build_dir st =
     (if is_first \<and> USE_FIRST_BUILD_LOCK E
      then (case compile_for_board_and_example E project example build_dir
                   (st\<lparr>trace := trace st @ [Acquire]\<rparr>) of
              (r, st') \<Rightarrow> (r, st'\<lparr>trace := trace st' @ [Release]\<rparr>))
      else compile_for_board_and_example E project example build_dir st)"

text \<open>
  One pass through the body of the \<^verbatim>\<open>for\<close> loop (lines 84 to 106). \<open>Some r\<close> leaves the
  function with \<open>r\<close> (a \<^verbatim>\<open>return\<close>, or the exception of the compile); \<open>None\<close> goes on
  to the next example, for which \<^verbatim>\<open>is_first\<close> is false.
\<close>

definition loop_body ::
  "'w build_sys \<Rightarrow> Board \<Rightarrow> string option \<Rightarrow> bool \<Rightarrow> string \<Rightarrow> 'w state
     \<Rightarrow> (exn + bool \<times> string) option \<times> 'w state" where
  "loop_body E project build_dir is_first example st0 =
     (let board = board_name project in
      if ERROR_HAPPENED st0 then (Some (Inr (True, '''')), st0)
      else
        (let st1 = locked_print
               (''\<newline>*** Building '' @ example @ '' for board '' @ board @ '' ***'') st0;
             st2 = (if is_first
                    then locked_print (''*** Building for first example '' @ example
                           @ '' board '' @ board @ '' ***'') st1
                    else st1)
         in case first_build_compile E is_first project example build_dir st2 of
              (Inl e, st3) \<Rightarrow> (Some (Inl e), st3)
            | (Inr (success, message), st3) \<Rightarrow>
                if \<not> success
                then (Some (Inr (False, ''Error building '' @ example @ '' for board '' @ board
                         @ ''. stdout:\<newline>'' @ message)),
                      st3\<lparr>ERROR_HAPPENED := True\<rparr>)
                else (None, st3)))"

fun compile_examples_loop ::
  "'w build_sys \<Rightarrow> Board \<Rightarrow> string option \<Rightarrow> bool \<Rightarrow> string list \<Rightarrow> 'w state
     \<Rightarrow> (exn + bool \<times> string) \<times> 'w state" where
  "compile_examples_loop E project build_dir is_first [] st = (Inr (True, ''''), st)"
| "compile_examples_loop E project build_dir is_first (example # examples) st =
     (case loop_body E project build_dir is_first example st of
        (Some r, st') \<Rightarrow> (r, st')
      | (None, st') \<Rightarrow> compile_examples_loop E project build_dir False examples st')"

definition compile_examples ::
  "'w build_sys \<Rightarrow> Board \<Rightarrow> string list \<Rightarrow> string option \<Rightarrow> 'w state
     \<Rightarrow> (exn + bool \<times> string) \<times> 'w state" where
  "compile_examples E project examples build_dir st =
     compile_examples_loop E project build_dir True examples st"

subsection \<open>Reading the trace\<close>

text \<open>
  The command line of the build tool for one example of a batch, as
  \<^verbatim>\<open>compile_for_board_and_example\<close> builds it.
\<close>

definition build_cmd :: "'w build_sys \<Rightarrow> Board \<Rightarrow> string option \<Rightarrow> string \<Rightarrow> string list" where
  "build_cmd E project build_dir example =
     cmd_list_of (board_name project) (builddir_of E (board_name project) build_dir) example"

text \<open>The events a call added to the trace.\<close>

definition events_since :: "'w state \<Rightarrow> 'w state \<Rightarrow> event list" where
  "events_since st st' = drop (length (trace st)) (trace st')"

text \<open>The invocations of the build tool in a trace, in order.\<close>

fun builds :: "event list \<Rightarrow> string list list" where
  "builds [] = []"
| "builds (Subprocess cmd # es) = (if take 1 cmd = [''pio''] then cmd # builds es else builds es)"
| "builds (Print s # es) = builds es"
| "builds (Acquire # es) = builds es"
| "builds (Release # es) = builds es"

text \<open>
  Whether the batch holds the first-build lock after a trace, and the invocations of the
  build tool made while it holds the lock, and while it does not; \<open>h\<close> says whether it
  holds the lock at the start.
\<close>

fun held_after :: "bool \<Rightarrow> event list \<Rightarrow> bool" where
  "held_after h [] = h"
| "held_after h (Acquire # es) = held_after True es"
| "held_after h (Release # es) = held_after False es"
| "held_after h (Subprocess cmd # es) = held_after h es"
| "held_after h (Print s # es) = held_after h es"

fun builds_held :: "bool \<Rightarrow> event list \<Rightarrow> string list list" where
  "builds_held h [] = []"
| "builds_held h (Acquire # es) = builds_held True es"
| "builds_held h (Release # es) = builds_held False es"
| "builds_held h (Subprocess cmd # es) =
     (if h \<and> take 1 cmd = [''pio''] then cmd # builds_held h es else builds_held h es)"
| "builds_held h (Print s # es) = builds_held h es"

fun builds_free :: "bool \<Rightarrow> event list \<Rightarrow> string list list" where
  "builds_free h [] = []"
| "builds_free h (Acquire # es) = builds_free True es"
| "builds_free h (Release # es) = builds_free False es"
| "builds_free h (Subprocess cmd # es) =
     (if \<not> h \<and> take 1 cmd = [''pio''] then cmd # builds_free h es else builds_free h es)"
| "builds_free h (Print s # es) = builds_free h es"

text \<open>Shapes of trace segments, used in the proofs below.\<close>

definition plain :: "event list \<Rightarrow> bool" where
  "plain es \<longleftrightarrow> Acquire \<notin> set es \<and> Release \<notin> set es"

definition shape :: "bool \<Rightarrow> string list list \<Rightarrow> event list \<Rightarrow> bool" where
  "shape g B ev \<longleftrightarrow>
     builds ev = B \<and> builds_held False ev = (if g then B else []) \<and>
     builds_free False ev = (if g then [] else B) \<and> held_after False ev = False \<and>
     count_list ev Acquire = (if g then 1 else 0)"

definition extends :: "'w state \<Rightarrow> 'w state \<Rightarrow> bool \<Rightarrow> string list list \<Rightarrow> bool" where
  "extends st st' g B \<longleftrightarrow> (\<exists>ev. trace st' = trace st @ ev \<and> shape g B ev)"

definition built ::
  "'w build_sys \<Rightarrow> Board \<Rightarrow> string option \<Rightarrow> string \<Rightarrow> (exn + bool \<times> string)
     \<Rightarrow> string list list" where
  "built E project build_dir example r =
     (case r of Inl e \<Rightarrow> [] | Inr v \<Rightarrow> [build_cmd E project build_dir example])"

definition run_shape :: "bool \<Rightarrow> string list list \<Rightarrow> nat \<Rightarrow> event list \<Rightarrow> bool" where
  "run_shape g cmds n ev \<longleftrightarrow>
     prefix (builds ev) cmds \<and>
     builds_held False ev = (if g then take 1 (builds ev) else []) \<and>
     builds_free False ev = (if g then drop 1 (builds ev) else builds ev) \<and>
     held_after False ev = False \<and>
     count_list ev Acquire = n"

subsection \<open>Batches running side by side\<close>

text \<open>
  The caller runs one \<^verbatim>\<open>compile_examples\<close> per board on a pool of threads. The threads
  share \<^verbatim>\<open>ERROR_HAPPENED\<close>, \<^verbatim>\<open>FIRST_BUILD_LOCK\<close> and the outside world, and nothing keeps a
  pass through the loop together: between the read of the flag on line 84 and the write on
  line 102 the other threads go on. A thread is a call of \<^verbatim>\<open>compile_examples\<close> under way,
  and its program counter says where in the loop it stands:
  \<^item> \<open>At_loop_head\<close>: line 83, before the next example is taken and the flag is read;
  \<^item> \<open>At_announce\<close>: the flag was read as false; lines 86 to 88 print;
  \<^item> \<open>At_gate\<close>: line 89; the first example under \<^verbatim>\<open>USE_FIRST_BUILD_LOCK\<close> waits for the
    lock and takes it;
  \<^item> \<open>At_prepare\<close>, \<open>At_tool\<close>: inside \<^verbatim>\<open>compile_for_board_and_example\<close>, before lines 28
    to 33 and before lines 34 to 72, holding the lock or not;
  \<^item> \<open>At_release\<close>: leaving the \<^verbatim>\<open>with\<close> block, with the outcome of the compile;
  \<^item> \<open>At_result\<close>: lines 100 to 106, with the outcome of the compile;
  \<^item> \<open>Returned\<close>: the call has returned or raised.
\<close>

datatype pc =
    At_loop_head
  | At_announce string
  | At_gate string
  | At_prepare string bool
  | At_tool string bool
  | At_release string "exn + bool \<times> string"
  | At_result string "exn + bool \<times> string"
  | Returned "exn + bool \<times> string"

record thread =
  t_project :: Board
  t_build_dir :: "string option"
  t_is_first :: bool
  t_remaining :: "string list"
  t_pc :: pc

definition start_thread :: "Board \<Rightarrow> string list \<Rightarrow> string option \<Rightarrow> thread" where
  "start_thread project examples build_dir =
     \<lparr>t_project = project, t_build_dir = build_dir, t_is_first = True,
      t_remaining = examples, t_pc = At_loop_head\<rparr>"

text \<open>
  One step of thread \<open>i\<close> on the shared state and the holder of the lock. Every step reads
  or writes the flag at most once; a thread that waits for the lock stays where it is.
\<close>

definition thread_step ::
  "'w build_sys \<Rightarrow> nat \<Rightarrow> thread \<Rightarrow> 'w state \<Rightarrow> nat option
     \<Rightarrow> thread \<times> 'w state \<times> nat option" where
  "thread_step E i t st holder =
     (let project = t_project t;
          board = board_name project;
          builddir = builddir_of E board (t_build_dir t)
      in case t_pc t of
           At_loop_head \<Rightarrow>
             (case t_remaining t of
                [] \<Rightarrow> (t\<lparr>t_pc := Returned (Inr (True, ''''))\<rparr>, st, holder)
              | example # examples \<Rightarrow>
                  if ERROR_HAPPENED st
                  then (t\<lparr>t_pc := Returned (Inr (True, ''''))\<rparr>, st, holder)
                  else (t\<lparr>t_remaining := examples, t_pc := At_announce example\<rparr>, st, holder))
         | At_announce example \<Rightarrow>
             (let st1 = locked_print
                    (''\<newline>*** Building '' @ example @ '' for board '' @ board @ '' ***'') st;
                  st2 = (if t_is_first t
                         then locked_print (''*** Building for first example '' @ example
                                @ '' board '' @ board @ '' ***'') st1
                         else st1)
              in (t\<lparr>t_pc := At_gate example\<rparr>, st2, holder))
         | At_gate example \<Rightarrow>
             if t_is_first t \<and> USE_FIRST_BUILD_LOCK E
             then (case holder of
                     None \<Rightarrow> (t\<lparr>t_pc := At_prepare example True\<rparr>,
                              st\<lparr>trace := trace st @ [Acquire]\<rparr>, Some i)
                   | Some j \<Rightarrow> (t, st, holder))
             else (t\<lparr>t_pc := At_prepare example False\<rparr>, st, holder)
         | At_prepare example held \<Rightarrow>
             (case remove_previous_src E builddir st of
                (Some e, st2) \<Rightarrow>
                  (t\<lparr>t_pc := (if held then At_release example (Inl e)
                                else At_result example (Inl e))\<rparr>, st2, holder)
              | (None, st2) \<Rightarrow> (t\<lparr>t_pc := At_tool example held\<rparr>, st2, holder))
         | At_tool example held \<Rightarrow>
             (case run_build_tool E board builddir example st of
                (r, st7) \<Rightarrow>
                  (t\<lparr>t_pc := (if held then At_release example (Inr r)
                                else At_result example (Inr r))\<rparr>, st7, holder))
         | At_release example r \<Rightarrow>
             (t\<lparr>t_pc := At_result example r\<rparr>, st\<lparr>trace := trace st @ [Release]\<rparr>, None)
         | At_result example r \<Rightarrow>
             (case r of
                Inl e \<Rightarrow> (t\<lparr>t_pc := Returned (Inl e)\<rparr>, st, holder)
              | Inr (success, message) \<Rightarrow>
                  if \<not> success
                  then (t\<lparr>t_is_first := False,
                          t_pc := Returned (Inr (False, ''Error building '' @ example
                            @ '' for board '' @ board @ ''. stdout:\<newline>'' @ message))\<rparr>,
                        st\<lparr>ERROR_HAPPENED := True\<rparr>, holder)
                  else (t\<lparr>t_is_first := False, t_pc := At_loop_head\<rparr>, st, holder))
         | Returned r \<Rightarrow> (t, st, holder))"

text \<open>
  The threads with what they share. A schedule names the thread that takes each step; any
  list of thread numbers is a schedule, so every interleaving of the steps is a run.
\<close>

record 'w system =
  shared :: "'w state"
  lock_holder :: "nat option"
  threads :: "thread list"

definition start_system :: "'w \<Rightarrow> thread list \<Rightarrow> 'w system" where
  "start_system w ts = \<lparr>shared = initial_state w, lock_holder = None, threads = ts\<rparr>"

definition system_step :: "'w build_sys \<Rightarrow> nat \<Rightarrow> 'w system \<Rightarrow> 'w system" where
  "system_step E i s =
     (if i < length (threads s)
      then (case thread_step E i (threads s ! i) (shared s) (lock_holder s) of
              (t, st, holder) \<Rightarrow>
                \<lparr>shared = st, lock_holder = holder, threads = (threads s)[i := t]\<rparr>)
      else s)"

fun run_threads :: "'w build_sys \<Rightarrow> nat list \<Rightarrow> 'w system \<Rightarrow> 'w system" where
  "run_threads E [] s = s"
| "run_threads E (i # sched) s = run_threads E sched (system_step E i s)"

subsection \<open>A scripted build tool, for concrete runs\<close>

text \<open>
  An outside world without state: no \<^verbatim>\<open>src\<close> directory is left over from an earlier
  build, and the exit code and output of a command are given by \<open>tool\<close>.
\<close>

definition example_sys :: "bool \<Rightarrow> (string list \<Rightarrow> int \<times> string) \<Rightarrow> unit build_sys" where
  "example_sys github tool =
     \<lparr>environ = (if github then [''GITHUB_ACTIONS'' \<mapsto> ''true''] else Map.empty),
      path_join = (\<lambda>a b. a @ ''/'' @ b),
      path_exists = (\<lambda>p w. False),
      path_mkdir = (\<lambda>p w. w),
      subprocess_run = (\<lambda>cmd w. (tool cmd, w)),
      list2cmdline = join '' ''\<rparr>"

definition failing_on :: "string \<Rightarrow> string list \<Rightarrow> int \<times> string" where
  "failing_on example cmd =
     (if last cmd = ''examples/'' @ example @ ''/*ino'' then (1, ''boom'') else (0, ''ok''))"

definition uno :: Board where
  "uno = \<lparr>board_name = ''uno''\<rparr>"

definition esp32 :: Board where
  "esp32 = \<lparr>board_name = ''esp32''\<rparr>"

definition header_error_tool :: "string list \<Rightarrow> int \<times> string" where
  "header_error_tool cmd = (1, ''lib/src/FastLED.h: error'')"

definition header_error_on :: "string \<Rightarrow> string list \<Rightarrow> int \<times> string" where
  "header_error_on example cmd =
     (if last cmd = ''examples/'' @ example @ ''/*ino''
      then (1, ''lib/src/FastLED.h: error'') else (0, ''ok''))"

section \<open>The docs publisher: \<^verbatim>\<open>ci/docs.py\<close>\<close>

text \<open>
  The operating system and the library functions the script calls, over a state \<open>'w\<close> of
  the outside world:
  \<^item> \<open>d_environ\<close>: \<^verbatim>\<open>os.environ\<close>;
  \<^item> \<open>d_shell cmd cwd\<close>: \<^verbatim>\<open>subprocess.run(cmd, shell=True, cwd=cwd, capture_output=True)\<close>,
    giving the exit code and the decoded output and error streams;
  \<^item> \<open>d_gettempdir\<close>, \<open>d_join\<close>: \<^verbatim>\<open>tempfile.gettempdir()\<close> and \<^verbatim>\<open>Path(a) / b\<close>;
  \<^item> \<open>d_download\<close>, \<open>d_unpack_archive\<close>: \<^verbatim>\<open>download(url, path)\<close> and
    \<^verbatim>\<open>shutil.unpack_archive(archive, dir)\<close>, which may raise;
  \<^item> \<open>d_glob dir pattern\<close>: the paths \<^verbatim>\<open>dir.glob(pattern)\<close> yields, in order;
  \<^item> \<open>d_read_text\<close>, \<open>d_write_text\<close>: \<^verbatim>\<open>Path.read_text\<close> and \<^verbatim>\<open>Path.write_text\<close>;
  \<^item> \<open>d_compile_template\<close>: what \<^verbatim>\<open>re\<close> makes of a replacement string that contains a
    backslash, for a pattern without groups: an error, or the replacement as a function
    of the matched text.
  What \<^verbatim>\<open>print\<close> and \<^verbatim>\<open>warnings.warn\<close> write is left out.
\<close>

record 'w docs_sys =
  d_environ :: "'w \<Rightarrow> string \<rightharpoonup> string"
  d_shell :: "string \<Rightarrow> string option \<Rightarrow> 'w \<Rightarrow> (int \<times> string \<times> string) \<times> 'w"
  d_gettempdir :: "'w \<Rightarrow> string"
  d_join :: "string \<Rightarrow> string \<Rightarrow> string"
  d_download :: "string \<Rightarrow> string \<Rightarrow> 'w \<Rightarrow> exn option \<times> 'w"
  d_unpack_archive :: "string \<Rightarrow> string \<Rightarrow> 'w \<Rightarrow> exn option \<times> 'w"
  d_glob :: "string \<Rightarrow> string \<Rightarrow> 'w \<Rightarrow> string list"
  d_read_text :: "string \<Rightarrow> 'w \<Rightarrow> exn + string"
  d_write_text :: "string \<Rightarrow> string \<Rightarrow> 'w \<Rightarrow> exn option \<times> 'w"
  d_compile_template :: "string \<Rightarrow> exn + (string \<Rightarrow> string)"


definition DOXYFILE_PATH :: string where
  "DOXYFILE_PATH = ''docs/Doxyfile''"

text \<open>
  \<^verbatim>\<open>run(cmd, cwd, check)\<close>, always called with \<^verbatim>\<open>shell=True\<close>: a non-zero exit code raises
  \<^verbatim>\<open>CalledProcessError\<close> when \<^verbatim>\<open>check\<close> is set; otherwise the stripped output is returned.
\<close>

definition run :: "'w docs_sys \<Rightarrow> string \<Rightarrow> string option \<Rightarrow> bool \<Rightarrow> 'w \<Rightarrow> (exn + string) \<times> 'w" where
  "run D cmd cwd check w =
     (case d_shell D cmd cwd w of
        ((returncode, stdout, stderr), w') \<Rightarrow>
          if returncode \<noteq> 0 \<and> check
          then (Inl (CalledProcessError returncode [cmd]), w')
          else (Inr (strip stdout), w'))"

text \<open>
  Lines 46 to 50 of \<^verbatim>\<open>get_git_info\<close>: the query for the latest tag, inside \<^verbatim>\<open>try\<close>. A
  \<^verbatim>\<open>CalledProcessError\<close> gives the empty tag; any other exception goes on.
\<close>

definition query_latest_tag :: "'w docs_sys \<Rightarrow> 'w \<Rightarrow> (exn + string) \<times> 'w" where
  "query_latest_tag D w0 =
     (case run D ''git tag | grep -E '^[0-9]' | sort -V | tail -1'' None True w0 of
        (Inr latest_tag, w1) \<Rightarrow> (Inr (if latest_tag \<noteq> [] then latest_tag else ''''), w1)
      | (Inl (CalledProcessError returncode cmd), w1) \<Rightarrow> (Inr '''', w1)
      | (Inl e, w1) \<Rightarrow> (Inl e, w1))"

text \<open>\<^verbatim>\<open>get_git_info\<close>. The two queries for the commit are outside \<^verbatim>\<open>try\<close>.\<close>

definition get_git_info :: "'w docs_sys \<Rightarrow> 'w \<Rightarrow> (exn + string \<times> string) \<times> 'w" where
  "get_git_info D w0 =
     (let release_tag = (case d_environ D w0 ''RELEASE_TAG'' of Some v \<Rightarrow> v | None \<Rightarrow> '''')
      in case query_latest_tag D w0 of
           (Inl e, w1) \<Rightarrow> (Inl e, w1)
         | (Inr latest_tag, w1) \<Rightarrow>
             (case run D ''git rev-parse --short HEAD'' None True w1 of
                (Inl e, w2) \<Rightarrow> (Inl e, w2)
              | (Inr git_sha_short, w2) \<Rightarrow>
                  (case run D ''git rev-parse HEAD'' None True w2 of
                     (Inl e, w3) \<Rightarrow> (Inl e, w3)
                   | (Inr full_sha, w3) \<Rightarrow>
                       (let project_number =
                              (if release_tag \<noteq> [] then release_tag
                               else if latest_tag \<noteq> [] then latest_tag
                               else git_sha_short);
                            commit_message =
                              (if project_number \<noteq> git_sha_short
                               then project_number @ '' ('' @ full_sha @ '')''
                               else project_number)
                        in (Inr (project_number, commit_message), w3)))))"



subsection \<open>The substitution of \<^verbatim>\<open>update_doxyfile\<close>\<close>

text \<open>
  A match of \<^verbatim>\<open>PROJECT_NUMBER\s*=.*\<close> at the start of a text: the matched text and what
  follows it. \<^verbatim>\<open>\s*\<close> takes all the whitespace there is, line ends included (what comes
  next must be \<^verbatim>\<open>=\<close>, which is no whitespace, so giving some back never helps), and
  \<^verbatim>\<open>.*\<close> takes the rest of the line, up to the next newline.
\<close>

definition match_project_number :: "string \<Rightarrow> (string \<times> string) option" where
  "match_project_number s =
     (if prefix ''PROJECT_NUMBER'' s
      then (let s1 = drop (length ''PROJECT_NUMBER'') s
            in case dropWhile isspace s1 of
                 [] \<Rightarrow> None
               | c # s3 \<Rightarrow>
                   if c = CHR ''=''
                   then Some (''PROJECT_NUMBER'' @ takeWhile isspace s1 @ ''=''
                                @ takeWhile (\<lambda>c. c \<noteq> CHR 0x0A) s3,
                              dropWhile (\<lambda>c. c \<noteq> CHR 0x0A) s3)
                   else None)
      else None)"

text \<open>
  \<^verbatim>\<open>re.sub\<close> with the pattern \<^verbatim>\<open>(?m)^PROJECT_NUMBER\s*=.*\<close>: the text is scanned from the
  left; \<^verbatim>\<open>^\<close> holds at the start of the text and behind every newline (\<open>bol\<close>); a match is
  replaced by \<open>f\<close> of the matched text and the scan goes on behind it; any other
  character is copied. A match ends before a newline or at the end of the text, and its
  last character is no newline.
\<close>

function re_sub_scan :: "(string \<Rightarrow> string) \<Rightarrow> bool \<Rightarrow> string \<Rightarrow> string" where
  "re_sub_scan f bol [] = []"
| "re_sub_scan f bol (c # cs) =
     (case (if bol then match_project_number (c # cs) else None) of
        Some (m, rest) \<Rightarrow> f m @ re_sub_scan f False rest
      | None \<Rightarrow> c # re_sub_scan f (c = CHR 0x0A) cs)"
  by pat_completeness auto
termination
proof (relation "measure (\<lambda>(f, bol, s). length s)")
  fix f :: "string \<Rightarrow> string" and bol c cs x2 x y
  assume "(if bol then match_project_number (c # cs) else None) = Some x2" and "(x, y) = x2"
  then have "match_project_number (c # cs) = Some (x, y)"
    by (simp split: if_splits)
  then obtain s3 where "y = dropWhile (\<lambda>c. c \<noteq> CHR 0x0A) s3"
    and "length s3 < length (dropWhile isspace (drop (length ''PROJECT_NUMBER'') (c # cs)))"
    by (auto simp add: match_project_number_def Let_def split: if_splits list.splits)
  moreover have "length (dropWhile (\<lambda>c. c \<noteq> CHR 0x0A) s3) \<le> length s3"
    by (rule length_dropWhile_le)
  moreover have "length (dropWhile isspace (drop (length ''PROJECT_NUMBER'') (c # cs)))
      \<le> length (drop (length ''PROJECT_NUMBER'') (c # cs))"
    by (rule length_dropWhile_le)
  ultimately have "length y < length (c # cs)" by simp
  then show "((f, False, y), f, bol, c # cs) \<in> measure (\<lambda>(f, bol, s). length s)"
    by simp
qed simp_all

text \<open>
  \<^verbatim>\<open>re.sub(pattern, repl, text)\<close> for a string \<open>repl\<close>: without a backslash it is taken as
  it is; with one it is compiled as a template first, also when nothing matches.
\<close>

definition re_sub_project_number :: "'w docs_sys \<Rightarrow> string \<Rightarrow> string \<Rightarrow> exn + string" where
  "re_sub_project_number D repl text =
     (if CHR 0x5C \<in> set repl
      then (case d_compile_template D repl of
              Inl e \<Rightarrow> Inl e
            | Inr f \<Rightarrow> Inr (re_sub_scan f True text))
      else Inr (re_sub_scan (\<lambda>m. repl) True text))"

definition doxyfile_sub :: "'w docs_sys \<Rightarrow> string \<Rightarrow> string \<Rightarrow> exn + string" where
  "doxyfile_sub D project_number doxyfile =
     re_sub_project_number D (''PROJECT_NUMBER = '' @ project_number) doxyfile"

definition update_doxyfile :: "'w docs_sys \<Rightarrow> string \<Rightarrow> 'w \<Rightarrow> exn option \<times> 'w" where
  "update_doxyfile D project_number w0 =
     (case d_read_text D DOXYFILE_PATH w0 of
        Inl e \<Rightarrow> (Some e, w0)
      | Inr doxyfile \<Rightarrow>
          (case doxyfile_sub D project_number doxyfile of
             Inl e \<Rightarrow> (Some e, w0)
           | Inr updated \<Rightarrow> d_write_text D DOXYFILE_PATH updated w0))"

text \<open>The lines of a text, as \<^verbatim>\<open>text.split("\n")\<close> gives them.\<close>

fun split_lines :: "string \<Rightarrow> string list" where
  "split_lines [] = [[]]"
| "split_lines (c # cs) =
     (if c = CHR 0x0A then [] # split_lines cs
      else (case split_lines cs of [] \<Rightarrow> [[c]] | l # ls \<Rightarrow> (c # l) # ls))"

text \<open>
  The patch as the specification words it, on the lines of the file: a line that starts
  with the key, then whitespace, then \<^verbatim>\<open>=\<close>, is replaced; every other line is kept.
\<close>

definition key_line :: "string \<Rightarrow> bool" where
  "key_line l \<longleftrightarrow> match_project_number l \<noteq> None"

definition patch_lines :: "string \<Rightarrow> string list \<Rightarrow> string list" where
  "patch_lines project_number ls =
     map (\<lambda>l. if key_line l then ''PROJECT_NUMBER = '' @ project_number else l) ls"

text \<open>A line that is the key followed by whitespace only: a match may go on behind it.\<close>

definition bare_key :: "string \<Rightarrow> bool" where
  "bare_key l \<longleftrightarrow>
     prefix ''PROJECT_NUMBER'' l \<and> list_all isspace (drop (length ''PROJECT_NUMBER'') l)"

subsection \<open>A scripted outside world, for concrete runs\<close>

text \<open>
  The shell answers by \<open>script\<close>, the environment is \<open>env\<close>, \<open>found\<close> is what the search
  for the executable yields; downloads and file writes succeed. The versions of the
  concrete runs contain no backslash, so the template compiler is never asked.
\<close>

definition example_docs ::
  "(string \<rightharpoonup> string) \<Rightarrow> (string \<Rightarrow> int \<times> string \<times> string) \<Rightarrow> string list \<Rightarrow> unit docs_sys" where
  "example_docs env script found =
     \<lparr>d_environ = (\<lambda>w. env),
      d_shell = (\<lambda>cmd cwd w. (script cmd, w)),
      d_gettempdir = (\<lambda>w. ''/tmp''),
      d_join = (\<lambda>a b. a @ ''/'' @ b),
      d_download = (\<lambda>url path w. (None, w)),
      d_unpack_archive = (\<lambda>archive dir w. (None, w)),
      d_glob = (\<lambda>dir pattern w. found),
      d_read_text = (\<lambda>path w. Inr ''''),
      d_write_text = (\<lambda>path text w. (None, w)),
      d_compile_template = (\<lambda>repl. Inl (TemplateError repl))\<rparr>"

definition git_script :: "string \<Rightarrow> int \<times> string \<times> string" where
  "git_script cmd =
     (if cmd = ''git rev-parse --short HEAD'' then (0, ''abc1234\<newline>'', '''')
      else if cmd = ''git rev-parse HEAD'' then (0, ''abc1234def5678\<newline>'', '''')
      else if cmd = ''git tag | grep -E '^[0-9]' | sort -V | tail -1'' then (0, ''3.9.2\<newline>'', '''')
      else (0, '''', ''''))"

section \<open>Properties of the build orchestrator\<close>

subsection \<open>What each function does to the flag, the world and the trace\<close>

lemma run_subprocess_frame:
  "run_subprocess E cmd st = (r, st') \<Longrightarrow>
     ERROR_HAPPENED st' = ERROR_HAPPENED st \<and> trace st' = trace st @ [Subprocess cmd]
     \<and> (r, world st') = subprocess_run E cmd (world st)"
  by (auto simp add: run_subprocess_def split: prod.splits)

lemma remove_previous_src_frame:
  assumes "remove_previous_src E builddir st = (e, st')"
  shows "ERROR_HAPPENED st' = ERROR_HAPPENED st"
    and "\<exists>ev. trace st' = trace st @ ev \<and> plain ev \<and> builds ev = []"
proof -
  let ?st1 = "st\<lparr>world := path_mkdir E builddir (world st)\<rparr>"
  let ?cmd = "[''rm'', ''-rf'', path_join E builddir ''src'']"
  obtain rc out st2 where r: "run_subprocess E ?cmd ?st1 = ((rc, out), st2)"
    by (metis surj_pair)
  note f = run_subprocess_frame [OF r]
  have st': "st' = st2 \<or> st' = ?st1"
    using assms r by (simp add: remove_previous_src_def Let_def split: if_splits)
  then show "ERROR_HAPPENED st' = ERROR_HAPPENED st"
    using f by auto
  have "trace st' = trace st @ [Subprocess ?cmd] \<or> trace st' = trace st @ []"
    using st' f by auto
  moreover have "plain [Subprocess ?cmd] \<and> builds [Subprocess ?cmd] = []"
    "plain [] \<and> builds [] = []"
    by (simp_all add: plain_def)
  ultimately show "\<exists>ev. trace st' = trace st @ ev \<and> plain ev \<and> builds ev = []"
    by blast
qed

lemma run_build_tool_frame:
  assumes "run_build_tool E board builddir example st = (r, st')"
  shows "ERROR_HAPPENED st' = ERROR_HAPPENED st"
    and "\<exists>ev. trace st' = trace st @ ev \<and> plain ev \<and> builds ev = [cmd_list_of board builddir example]"
proof -
  define st4 where "st4 = locked_print (join ''\<newline>'' [''\<newline>\<newline>******************************'',
                      ''* Running command:'',
                      ''*     '' @ list2cmdline E (cmd_list_of board builddir example),
                      ''******************************\<newline>''])
     (locked_print (''*** Building example '' @ example @ '' for board '' @ board @ '' ***'') st)"
  obtain rc out st5 where r: "run_subprocess E (cmd_list_of board builddir example) st4 = ((rc, out), st5)"
    by (metis surj_pair)
  note f = run_subprocess_frame [OF r]
  have t4: "trace st4 = trace st @ [Print (''*** Building example '' @ example @ '' for board '' @ board @ '' ***''),
     Print (join ''\<newline>'' [''\<newline>\<newline>******************************'',
                      ''* Running command:'',
                      ''*     '' @ list2cmdline E (cmd_list_of board builddir example),
                      ''******************************\<newline>''])]"
    and e4: "ERROR_HAPPENED st4 = ERROR_HAPPENED st"
    unfolding st4_def locked_print_def by simp_all
  have "\<exists>m. st' = locked_print m (locked_print (normalize_paths out) st5)"
    using assms r unfolding run_build_tool_def Let_def st4_def [symmetric]
    by (auto split: if_splits)
  then obtain m where st': "st' = locked_print m (locked_print (normalize_paths out) st5)" ..
  show "ERROR_HAPPENED st' = ERROR_HAPPENED st"
    using f e4 by (simp add: st' locked_print_def)
  define ev where "ev = [Print (''*** Building example '' @ example @ '' for board '' @ board @ '' ***''),
     Print (join ''\<newline>'' [''\<newline>\<newline>******************************'',
                      ''* Running command:'',
                      ''*     '' @ list2cmdline E (cmd_list_of board builddir example),
                      ''******************************\<newline>'']), Subprocess (cmd_list_of board builddir example),
       Print (normalize_paths out), Print m]"
  have "trace st' = trace st @ ev"
    using f t4 by (simp add: st' locked_print_def ev_def)
  moreover have "take 1 (cmd_list_of board builddir example) = [''pio'']"
    by (simp add: cmd_list_of_def)
  then have "plain ev \<and> builds ev = [cmd_list_of board builddir example]"
    by (simp add: plain_def ev_def)
  ultimately show "\<exists>ev. trace st' = trace st @ ev \<and> plain ev \<and> builds ev = [cmd_list_of board builddir example]"
    by blast
qed

lemma run_build_tool_result:
  assumes "subprocess_run E (cmd_list_of board builddir example) (world st) = ((rc, out), w)"
  shows "fst (run_build_tool E board builddir example st) = (rc = 0, normalize_paths out)"
    and "world (snd (run_build_tool E board builddir example st)) = w"
  using assms
  by (simp_all add: run_build_tool_def Let_def run_subprocess_def locked_print_def)

lemma remove_previous_src_result:
  "fst (remove_previous_src E builddir st) =
     (let w1 = path_mkdir E builddir (world st); srcdir = path_join E builddir ''src'' in
      if path_exists E srcdir w1 \<and> fst (fst (subprocess_run E [''rm'', ''-rf'', srcdir] w1)) \<noteq> 0
      then Some (CalledProcessError (fst (fst (subprocess_run E [''rm'', ''-rf'', srcdir] w1))) [''rm'', ''-rf'', srcdir])
      else None)"
  "world (snd (remove_previous_src E builddir st)) =
     (let w1 = path_mkdir E builddir (world st); srcdir = path_join E builddir ''src'' in
      if path_exists E srcdir w1 then snd (subprocess_run E [''rm'', ''-rf'', srcdir] w1) else w1)"
  by (simp_all add: remove_previous_src_def Let_def run_subprocess_def split: prod.splits)

lemma compile_frame:
  assumes "compile_for_board_and_example E project example build_dir st = (r, st')"
  shows "ERROR_HAPPENED st' = ERROR_HAPPENED st"
    and "\<exists>ev. trace st' = trace st @ ev \<and> plain ev
           \<and> builds ev = (case r of Inl e \<Rightarrow> [] | Inr v \<Rightarrow> [build_cmd E project build_dir example])"
proof -
  let ?bd = "builddir_of E (board_name project) build_dir"
  obtain e st2 where rm: "remove_previous_src E ?bd st = (e, st2)"
    by (metis surj_pair)
  obtain v st7 where rb: "run_build_tool E (board_name project) ?bd example st2 = (v, st7)"
    by (metis surj_pair)
  note f1 = remove_previous_src_frame [OF rm]
  note f2 = run_build_tool_frame [OF rb]
  from f1(2) obtain ev1 where ev1: "trace st2 = trace st @ ev1" "plain ev1" "builds ev1 = []"
    by blast
  from f2(2) obtain ev2 where ev2: "trace st7 = trace st2 @ ev2" "plain ev2"
      "builds ev2 = [build_cmd E project build_dir example]"
    unfolding build_cmd_def by blast
  have builds_app: "builds (a @ b) = builds a @ builds b" for a b
    by (induction a rule: builds.induct) simp_all
  show "ERROR_HAPPENED st' = ERROR_HAPPENED st"
    using assms rm rb f1(1) f2(1)
    by (auto simp add: compile_for_board_and_example_def Let_def split: option.splits)
  show "\<exists>ev. trace st' = trace st @ ev \<and> plain ev
           \<and> builds ev = (case r of Inl e \<Rightarrow> [] | Inr v \<Rightarrow> [build_cmd E project build_dir example])"
  proof (cases e)
    case None
    with assms rm rb have "r = Inr v" "st' = st7"
      by (simp_all add: compile_for_board_and_example_def Let_def)
    moreover have "trace st7 = trace st @ (ev1 @ ev2)" "plain (ev1 @ ev2)"
      "builds (ev1 @ ev2) = [build_cmd E project build_dir example]"
      using ev1 ev2 by (simp_all add: plain_def builds_app)
    ultimately show ?thesis by (metis sum.simps(6))
  next
    case (Some x)
    with assms rm have "r = Inl x" "st' = st2"
      by (simp_all add: compile_for_board_and_example_def Let_def)
    with ev1 show ?thesis by (metis sum.simps(5))
  qed
qed

lemma compile_world_only:
  assumes "world st = world st2"
  shows "fst (compile_for_board_and_example E project example build_dir st)
           = fst (compile_for_board_and_example E project example build_dir st2)"
    and "world (snd (compile_for_board_and_example E project example build_dir st))
           = world (snd (compile_for_board_and_example E project example build_dir st2))"
proof -
  let ?bd = "builddir_of E (board_name project) build_dir"
  let ?b = "board_name project"
  obtain e sa where a: "remove_previous_src E ?bd st = (e, sa)" by (metis surj_pair)
  obtain e2 sb where b: "remove_previous_src E ?bd st2 = (e2, sb)" by (metis surj_pair)
  have same: "e = e2" "world sa = world sb"
    using remove_previous_src_result [of E ?bd st] remove_previous_src_result [of E ?bd st2] a b assms
    by simp_all
  obtain rc out w where t: "subprocess_run E (cmd_list_of ?b ?bd example) (world sa) = ((rc, out), w)"
    by (metis surj_pair)
  note ra = run_build_tool_result [OF t]
  from t same have "subprocess_run E (cmd_list_of ?b ?bd example) (world sb) = ((rc, out), w)"
    by simp
  note rb = run_build_tool_result [OF this]
  show "fst (compile_for_board_and_example E project example build_dir st)
           = fst (compile_for_board_and_example E project example build_dir st2)"
    using a b same ra(1) rb(1)
    by (auto simp add: compile_for_board_and_example_def Let_def split: option.splits prod.splits)
  show "world (snd (compile_for_board_and_example E project example build_dir st))
           = world (snd (compile_for_board_and_example E project example build_dir st2))"
    using a b same ra(2) rb(2)
    by (auto simp add: compile_for_board_and_example_def Let_def split: option.splits prod.splits)
qed

lemma builds_append: "builds (a @ b) = builds a @ builds b"
  by (induction a rule: builds.induct) simp_all

lemma held_after_append: "held_after h (a @ b) = held_after (held_after h a) b"
  by (induction h a rule: held_after.induct) simp_all

lemma builds_held_append:
  "builds_held h (a @ b) = builds_held h a @ builds_held (held_after h a) b"
  by (induction h a rule: builds_held.induct) simp_all

lemma builds_free_append:
  "builds_free h (a @ b) = builds_free h a @ builds_free (held_after h a) b"
  by (induction h a rule: builds_free.induct) simp_all

lemma plain_facts:
  assumes "plain ev"
  shows "held_after h ev = h"
    and "builds_held h ev = (if h then builds ev else [])"
    and "builds_free h ev = (if h then [] else builds ev)"
    and "count_list ev Acquire = 0"
  using assms
proof (induction ev arbitrary: h)
  case Nil
  {
    case 1 show ?case by simp
  next
    case 2 show ?case by simp
  next
    case 3 show ?case by simp
  next
    case 4 show ?case by simp
  }
next
  case (Cons a ev)
  {
    case 1 with Cons.IH(1) show ?case by (cases a) (simp_all add: plain_def)
  next
    case 2 with Cons.IH(2) show ?case by (cases a) (simp_all add: plain_def)
  next
    case 3 with Cons.IH(3) show ?case by (cases a) (simp_all add: plain_def)
  next
    case 4 with Cons.IH(4) show ?case by (cases a) (simp_all add: plain_def)
  }
qed

lemma shape_plain: "plain ev \<Longrightarrow> shape False (builds ev) ev"
  by (simp add: shape_def plain_facts)

lemma shape_gated: "plain ev \<Longrightarrow> shape True (builds ev) (Acquire # ev @ [Release])"
  by (simp add: shape_def plain_facts builds_append builds_held_append builds_free_append
      held_after_append)

lemma shape_prints: "shape g B ev \<Longrightarrow> shape g B (Print s # ev)"
  by (simp add: shape_def)

lemma extendsI: "trace st' = trace st @ ev \<Longrightarrow> shape g B ev \<Longrightarrow> extends st st' g B"
  unfolding extends_def by blast

lemma compile_frame_plain:
  assumes "compile_for_board_and_example E project example build_dir st = (r, st')"
  obtains ev where "trace st' = trace st @ ev" "plain ev"
    "builds ev = built E project build_dir example r"
  using compile_frame(2) [OF assms] unfolding built_def by blast

lemma first_build_compile_gated:
  assumes "first_build_compile E True project example build_dir st = (r, st')"
    and "USE_FIRST_BUILD_LOCK E"
  shows "ERROR_HAPPENED st' = ERROR_HAPPENED st
     \<and> r = fst (compile_for_board_and_example E project example build_dir st)
     \<and> world st' = world (snd (compile_for_board_and_example E project example build_dir st))
     \<and> extends st st' True (built E project build_dir example r)"
proof -
  let ?sa = "st\<lparr>trace := trace st @ [Acquire]\<rparr>"
  obtain sb where c: "compile_for_board_and_example E project example build_dir ?sa = (r, sb)"
    and st': "st' = sb\<lparr>trace := trace sb @ [Release]\<rparr>"
    using assms by (auto simp add: first_build_compile_def split: prod.splits)
  obtain ev where ev: "trace sb = trace ?sa @ ev" "plain ev"
    "builds ev = built E project build_dir example r"
    using c by (rule compile_frame_plain)
  have w: "world ?sa = world st" by simp
  have "trace st' = trace st @ (Acquire # ev @ [Release])"
    using ev(1) st' by simp
  moreover have "shape True (built E project build_dir example r) (Acquire # ev @ [Release])"
    using shape_gated [OF ev(2)] ev(3) by simp
  ultimately have "extends st st' True (built E project build_dir example r)"
    by (rule extendsI)
  moreover have "ERROR_HAPPENED st' = ERROR_HAPPENED st"
    using compile_frame(1) [OF c] st' by simp
  moreover have "r = fst (compile_for_board_and_example E project example build_dir st)"
    using compile_world_only(1) [OF w, of E project example build_dir] c by simp
  moreover have "world st' = world (snd (compile_for_board_and_example E project example build_dir st))"
    using compile_world_only(2) [OF w, of E project example build_dir] c st' by simp
  ultimately show ?thesis by simp
qed

lemma first_build_compile_free:
  assumes "first_build_compile E is_first project example build_dir st = (r, st')"
    and "\<not> (is_first \<and> USE_FIRST_BUILD_LOCK E)"
  shows "ERROR_HAPPENED st' = ERROR_HAPPENED st
     \<and> r = fst (compile_for_board_and_example E project example build_dir st)
     \<and> world st' = world (snd (compile_for_board_and_example E project example build_dir st))
     \<and> extends st st' False (built E project build_dir example r)"
proof -
  have c: "compile_for_board_and_example E project example build_dir st = (r, st')"
    using assms by (auto simp add: first_build_compile_def)
  obtain ev where ev: "trace st' = trace st @ ev" "plain ev"
    "builds ev = built E project build_dir example r"
    using c by (rule compile_frame_plain)
  have "shape False (built E project build_dir example r) ev"
    using shape_plain [OF ev(2)] ev(3) by simp
  with ev(1) have "extends st st' False (built E project build_dir example r)"
    by (rule extendsI)
  with compile_frame(1) [OF c] c show ?thesis by simp
qed

lemma first_build_compile_frame:
  assumes "first_build_compile E is_first project example build_dir st = (r, st')"
  shows "ERROR_HAPPENED st' = ERROR_HAPPENED st
     \<and> r = fst (compile_for_board_and_example E project example build_dir st)
     \<and> world st' = world (snd (compile_for_board_and_example E project example build_dir st))
     \<and> extends st st' (is_first \<and> USE_FIRST_BUILD_LOCK E) (built E project build_dir example r)"
proof (cases "is_first \<and> USE_FIRST_BUILD_LOCK E")
  case True
  then have "first_build_compile E True project example build_dir st = (r, st')"
    and "USE_FIRST_BUILD_LOCK E"
    using assms by simp_all
  note g = first_build_compile_gated [OF this]
  have eq: "(is_first \<and> USE_FIRST_BUILD_LOCK E) = True" using True by simp
  show ?thesis unfolding eq by (rule g)
next
  case False
  note g = first_build_compile_free [OF assms False]
  have eq: "(is_first \<and> USE_FIRST_BUILD_LOCK E) = False" using False by simp
  show ?thesis unfolding eq by (rule g)
qed

lemma extends_print: "extends (locked_print s st) st' g B \<Longrightarrow> extends st st' g B"
proof -
  assume "extends (locked_print s st) st' g B"
  then obtain ev where "trace st' = trace st @ (Print s # ev)" "shape g B ev"
    unfolding extends_def locked_print_def by auto
  then show ?thesis using shape_prints extendsI by blast
qed

lemma loop_body_run:
  assumes "\<not> ERROR_HAPPENED st"
    and "loop_body E project build_dir is_first example st = (x, st')"
  shows "x = (case fst (compile_for_board_and_example E project example build_dir st) of
                Inl e \<Rightarrow> Some (Inl e)
              | Inr (success, message) \<Rightarrow>
                  if success then None
                  else Some (Inr (False, ''Error building '' @ example @ '' for board ''
                         @ board_name project @ ''. stdout:\<newline>'' @ message)))
     \<and> ERROR_HAPPENED st' =
         (case fst (compile_for_board_and_example E project example build_dir st) of
            Inl e \<Rightarrow> False | Inr (success, message) \<Rightarrow> \<not> success)
     \<and> world st' = world (snd (compile_for_board_and_example E project example build_dir st))
     \<and> extends st st' (is_first \<and> USE_FIRST_BUILD_LOCK E)
          (built E project build_dir example
             (fst (compile_for_board_and_example E project example build_dir st)))"
proof -
  define st1 where "st1 = locked_print
     (''\<newline>*** Building '' @ example @ '' for board '' @ board_name project @ '' ***'') st"
  define st2 where "st2 = (if is_first
     then locked_print (''*** Building for first example '' @ example
            @ '' board '' @ board_name project @ '' ***'') st1
     else st1)"
  obtain r st3 where c: "first_build_compile E is_first project example build_dir st2 = (r, st3)"
    by (metis surj_pair)
  note f = first_build_compile_frame [OF c]
  have w2: "world st2 = world st" and e2: "ERROR_HAPPENED st2 = ERROR_HAPPENED st"
    by (simp_all add: st2_def st1_def locked_print_def)
  have r: "r = fst (compile_for_board_and_example E project example build_dir st)"
    using f compile_world_only(1) [OF w2, of E project example build_dir] by metis
  have w3: "world st3 = world (snd (compile_for_board_and_example E project example build_dir st))"
    using f compile_world_only(2) [OF w2, of E project example build_dir] by metis
  have e3: "\<not> ERROR_HAPPENED st3" using f e2 assms(1) by blast
  have "extends st2 st3 (is_first \<and> USE_FIRST_BUILD_LOCK E) (built E project build_dir example r)"
    using f by blast
  then have "extends st1 st3 (is_first \<and> USE_FIRST_BUILD_LOCK E) (built E project build_dir example r)"
    unfolding st2_def using extends_print by (cases is_first) auto
  then have x3: "extends st st3 (is_first \<and> USE_FIRST_BUILD_LOCK E) (built E project build_dir example r)"
    unfolding st1_def by (rule extends_print)
  have body: "(x, st') = (case r of
        Inl e \<Rightarrow> (Some (Inl e), st3)
      | Inr (success, message) \<Rightarrow>
          if \<not> success
          then (Some (Inr (False, ''Error building '' @ example @ '' for board ''
                   @ board_name project @ ''. stdout:\<newline>'' @ message)),
                st3\<lparr>ERROR_HAPPENED := True\<rparr>)
          else (None, st3))"
    using assms c unfolding loop_body_def Let_def st1_def [symmetric] st2_def [symmetric]
    by (simp split: sum.splits prod.splits)
  have x3': "extends st (st3\<lparr>ERROR_HAPPENED := True\<rparr>) (is_first \<and> USE_FIRST_BUILD_LOCK E)
      (built E project build_dir example r)"
    using x3 by (simp add: extends_def)
  show ?thesis
  proof (cases r)
    case (Inl e)
    with body e3 w3 x3 show ?thesis unfolding r [symmetric] by simp
  next
    case (Inr v)
    obtain success message where v: "v = (success, message)" by (cases v)
    show ?thesis
    proof (cases success)
      case True
      with body e3 w3 x3 Inr v show ?thesis unfolding r [symmetric] by simp
    next
      case False
      with body e3 w3 x3' Inr v show ?thesis unfolding r [symmetric] by simp
    qed
  qed
qed

lemma loop_abort:
  "ERROR_HAPPENED st \<Longrightarrow>
     compile_examples_loop E project build_dir is_first examples st = (Inr (True, ''''), st)"
  by (cases examples) (simp_all add: loop_body_def)

lemma built_cases:
  "built E project build_dir example r = [] \<or>
   built E project build_dir example r = [build_cmd E project build_dir example]"
  by (simp add: built_def split: sum.splits)

lemma loop_body_continue:
  assumes "\<not> ERROR_HAPPENED st"
    and "loop_body E project build_dir is_first example st = (None, st')"
  shows "\<not> ERROR_HAPPENED st'"
    and "built E project build_dir example
           (fst (compile_for_board_and_example E project example build_dir st))
         = [build_cmd E project build_dir example]"
    and "\<exists>m. fst (compile_for_board_and_example E project example build_dir st) = Inr (True, m)"
proof -
  note b = loop_body_run [OF assms]
  from b have "\<exists>m. fst (compile_for_board_and_example E project example build_dir st) = Inr (True, m)"
    by (auto split: sum.splits prod.splits if_splits)
  then obtain m where m: "fst (compile_for_board_and_example E project example build_dir st) = Inr (True, m)"
    ..
  then show "\<exists>m. fst (compile_for_board_and_example E project example build_dir st) = Inr (True, m)"
    by blast
  from m b show "\<not> ERROR_HAPPENED st'" by simp
  from m show "built E project build_dir example
           (fst (compile_for_board_and_example E project example build_dir st))
         = [build_cmd E project build_dir example]"
    by (simp add: built_def)
qed

lemma run_shape_single:
  assumes "shape g B ev" and "B = [] \<or> B = [c]"
  shows "run_shape g (c # cmds) (if g then 1 else 0) ev"
  using assms by (auto simp add: shape_def run_shape_def)

lemma run_shape_cons:
  assumes "shape g [c] ev1" and "run_shape False cmds 0 ev2"
  shows "run_shape g (c # cmds) (if g then 1 else 0) (ev1 @ ev2)"
  using assms
  by (simp add: shape_def run_shape_def builds_append builds_held_append builds_free_append
      held_after_append)

lemma loop_trace:
  assumes "compile_examples_loop E project build_dir is_first examples st = (r, st')"
  shows "\<exists>ev. trace st' = trace st @ ev \<and>
           run_shape (is_first \<and> USE_FIRST_BUILD_LOCK E)
             (map (build_cmd E project build_dir) examples)
             (if is_first \<and> USE_FIRST_BUILD_LOCK E \<and> examples \<noteq> [] \<and> \<not> ERROR_HAPPENED st
              then 1 else 0) ev"
  using assms
proof (induction examples arbitrary: is_first st)
  case Nil
  then have "trace st' = trace st @ []" by simp
  moreover have "run_shape (is_first \<and> USE_FIRST_BUILD_LOCK E) [] 0 []"
    by (simp add: run_shape_def)
  ultimately show ?case by auto
next
  case (Cons example examples)
  let ?g = "is_first \<and> USE_FIRST_BUILD_LOCK E"
  let ?cmds = "map (build_cmd E project build_dir) examples"
  let ?c = "build_cmd E project build_dir example"
  show ?case
  proof (cases "ERROR_HAPPENED st")
    case True
    with Cons.prems loop_abort [OF True, of E project build_dir is_first "example # examples"]
    have "trace st' = trace st @ []" by simp
    moreover have "run_shape ?g (?c # ?cmds) 0 []"
      by (simp add: run_shape_def)
    ultimately show ?thesis using True by auto
  next
    case False
    obtain x s1 where b: "loop_body E project build_dir is_first example st = (x, s1)"
      by (metis surj_pair)
    note run = loop_body_run [OF False b]
    let ?B = "built E project build_dir example
        (fst (compile_for_board_and_example E project example build_dir st))"
    from run have "extends st s1 ?g ?B" by blast
    then obtain ev1 where ev1: "trace s1 = trace st @ ev1" "shape ?g ?B ev1"
      unfolding extends_def by blast
    show ?thesis
    proof (cases x)
      case (Some y)
      with Cons.prems b have "st' = s1" by simp
      moreover have "run_shape ?g (?c # ?cmds) (if ?g then 1 else 0) ev1"
        using ev1(2) built_cases by (rule run_shape_single)
      ultimately show ?thesis using ev1(1) False by auto
    next
      case None
      with Cons.prems b
      have l: "compile_examples_loop E project build_dir False examples s1 = (r, st')"
        by simp
      from Cons.IH [OF l] obtain ev2 where ev2: "trace st' = trace s1 @ ev2"
        "run_shape False ?cmds 0 ev2"
        by auto
      from loop_body_continue(2) [OF False b [unfolded None]] ev1(2)
      have "shape ?g [?c] ev1" by simp
      then have "run_shape ?g (?c # ?cmds) (if ?g then 1 else 0) (ev1 @ ev2)"
        using ev2(2) by (rule run_shape_cons)
      moreover have "trace st' = trace st @ (ev1 @ ev2)"
        using ev1(1) ev2(1) by simp
      ultimately show ?thesis using False by auto
    qed
  qed
qed

lemma events_sinceI: "trace st' = trace st @ ev \<Longrightarrow> events_since st st' = ev"
  by (simp add: events_since_def)

lemma loop_extends:
  assumes "compile_examples_loop E project build_dir is_first examples st = (r, st')"
  shows "trace st' = trace st @ events_since st st'"
  using loop_trace [OF assms] events_sinceI by metis

lemma loop_body_return_true:
  assumes "\<not> ERROR_HAPPENED st"
  shows "loop_body E project build_dir is_first example st \<noteq> (Some (Inr (True, m)), st')"
proof
  assume a: "loop_body E project build_dir is_first example st = (Some (Inr (True, m)), st')"
  from loop_body_run [OF assms a] show False
    by (auto split: sum.splits prod.splits if_splits)
qed

lemma loop_completed:
  assumes "compile_examples_loop E project build_dir is_first pre st = (Inr (True, ''''), st1)"
    and "\<not> ERROR_HAPPENED st1"
  shows "compile_examples_loop E project build_dir is_first (pre @ rest) st
           = compile_examples_loop E project build_dir (is_first \<and> pre = []) rest st1
         \<and> builds (events_since st st1) = map (build_cmd E project build_dir) pre"
  using assms
proof (induction pre arbitrary: is_first st)
  case Nil
  then show ?case by (simp add: events_since_def)
next
  case (Cons example pre)
  have nf: "\<not> ERROR_HAPPENED st"
  proof
    assume "ERROR_HAPPENED st"
    from loop_abort [OF this, of E project build_dir is_first "example # pre"] Cons.prems(1)
    have "st1 = st" by simp
    with Cons.prems(2) \<open>ERROR_HAPPENED st\<close> show False by simp
  qed
  obtain x s1 where b: "loop_body E project build_dir is_first example st = (x, s1)"
    by (cases "loop_body E project build_dir is_first example st")
  have x: "x = None"
  proof (cases x)
    case (Some y)
    with Cons.prems(1) b have "loop_body E project build_dir is_first example st
        = (Some (Inr (True, '''')), st1)" by simp
    with loop_body_return_true [OF nf] show ?thesis by blast
  qed simp
  with Cons.prems(1) b
  have l: "compile_examples_loop E project build_dir False pre s1 = (Inr (True, ''''), st1)"
    by simp
  have ih: "compile_examples_loop E project build_dir False (pre @ rest) s1
           = compile_examples_loop E project build_dir False rest st1"
      "builds (events_since s1 st1) = map (build_cmd E project build_dir) pre"
    using Cons.IH [OF l Cons.prems(2)] by simp_all
  note c = loop_body_continue [OF nf b [unfolded x]]
  from loop_body_run [OF nf b] have "extends st s1 (is_first \<and> USE_FIRST_BUILD_LOCK E)
     (built E project build_dir example
        (fst (compile_for_board_and_example E project example build_dir st)))" by blast
  then obtain ev1 where ev1: "trace s1 = trace st @ ev1" "builds ev1 = [build_cmd E project build_dir example]"
    unfolding extends_def shape_def c(2) by auto
  have "trace st1 = trace s1 @ events_since s1 st1"
    using l by (rule loop_extends)
  with ev1(1) have "trace st1 = trace st @ (ev1 @ events_since s1 st1)"
    by simp
  then have "events_since st st1 = ev1 @ events_since s1 st1"
    by (rule events_sinceI)
  with ev1(2) ih have "builds (events_since st st1) = map (build_cmd E project build_dir) (example # pre)"
    by (simp add: builds_append)
  moreover have "compile_examples_loop E project build_dir is_first ((example # pre) @ rest) st
           = compile_examples_loop E project build_dir False rest st1"
    using b x ih(1) by simp
  ultimately show ?case by simp
qed

lemma loop_body_fails:
  assumes "\<not> ERROR_HAPPENED st"
    and "fst (compile_for_board_and_example E project example build_dir st) = Inr (False, out)"
  shows "\<exists>st'. loop_body E project build_dir is_first example st =
            (Some (Inr (False, ''Error building '' @ example @ '' for board ''
                         @ board_name project @ ''. stdout:\<newline>'' @ out)), st')
          \<and> ERROR_HAPPENED st'
          \<and> events_since st st' \<noteq> []
          \<and> trace st' = trace st @ events_since st st'
          \<and> builds (events_since st st') = [build_cmd E project build_dir example]"
proof -
  obtain x st' where b: "loop_body E project build_dir is_first example st = (x, st')"
    by (cases "loop_body E project build_dir is_first example st")
  note run = loop_body_run [OF assms(1) b, unfolded assms(2), simplified]
  from run obtain ev where ev: "trace st' = trace st @ ev"
    "builds ev = built E project build_dir example (Inr (False, out))"
    unfolding extends_def shape_def by blast
  then have "builds ev = [build_cmd E project build_dir example]"
    by (simp add: built_def)
  moreover from this have "ev \<noteq> []" by auto
  moreover have "events_since st st' = ev" using ev(1) by (rule events_sinceI)
  ultimately show ?thesis using b run ev(1) by simp
qed

section \<open>The claims about the build orchestrator\<close>

lemmas run_defs = compile_examples_def loop_body_def first_build_compile_def
  compile_for_board_and_example_def remove_previous_src_def run_build_tool_def
  run_subprocess_def locked_print_def example_sys_def failing_on_def uno_def esp32_def
  initial_state_def Let_def builddir_of_def cmd_list_of_def normalize_paths_def replace_def
  USE_FIRST_BUILD_LOCK_def IS_GITHUB_def events_since_def build_cmd_def

text \<open>
  Claim C1. When \<^verbatim>\<open>ERROR_HAPPENED\<close> is true at the start of a pass through the loop of
  \<^verbatim>\<open>compile_examples\<close>, whatever the board, the examples left and \<^verbatim>\<open>is_first\<close> are, the
  pass returns \<open>(True, "")\<close> and so does the function; the state is the one the pass
  started in, so nothing is printed, no command is run and the lock is not taken.
\<close>

theorem error_flag_aborts_batch:
  "ERROR_HAPPENED st \<Longrightarrow>
     loop_body E project build_dir is_first example st = (Some (Inr (True, '''')), st) \<and>
     compile_examples_loop E project build_dir is_first (example # examples) st
       = (Inr (True, ''''), st)"
  by (simp add: loop_body_def)

theorem error_flag_aborts_batch_witness:
  "compile_examples_loop (example_sys True (failing_on ''Fade'')) uno None True
     [''Blink'', ''Fade''] \<lparr>ERROR_HAPPENED = True, world = (), trace = []\<rparr>
   = (Inr (True, ''''), \<lparr>ERROR_HAPPENED = True, world = (), trace = []\<rparr>)"
  using error_flag_aborts_batch [of "\<lparr>ERROR_HAPPENED = True, world = (), trace = []\<rparr>"
      "example_sys True (failing_on ''Fade'')" uno None True "''Blink''" "[''Fade'']"]
  by simp

lemma failed_compile_message:
  assumes "compile_examples E project pre build_dir st = (Inr (True, ''''), st1)"
    and "\<not> ERROR_HAPPENED st1"
    and "fst (compile_for_board_and_example E project e build_dir st1) = Inr (False, out)"
  shows "fst (compile_examples E project (pre @ e # post) build_dir st)
           = Inr (False, ''Error building '' @ e @ '' for board '' @ board_name project
                    @ ''. stdout:\<newline>'' @ out)
     \<and> sublist e (''Error building '' @ e @ '' for board '' @ board_name project
                    @ ''. stdout:\<newline>'' @ out)
     \<and> sublist (board_name project) (''Error building '' @ e @ '' for board ''
                    @ board_name project @ ''. stdout:\<newline>'' @ out)
     \<and> sublist out (''Error building '' @ e @ '' for board '' @ board_name project
                    @ ''. stdout:\<newline>'' @ out)
     \<and> ERROR_HAPPENED (snd (compile_examples E project (pre @ e # post) build_dir st))
     \<and> builds (events_since st (snd (compile_examples E project (pre @ e # post) build_dir st)))
           = map (build_cmd E project build_dir) (pre @ [e])"
proof -
  let ?m = "''Error building '' @ e @ '' for board '' @ board_name project
              @ ''. stdout:\<newline>'' @ out"
  have l: "compile_examples_loop E project build_dir True pre st = (Inr (True, ''''), st1)"
    using assms(1) by (simp add: compile_examples_def)
  note fin = loop_completed [OF l assms(2), of "e # post"]
  from loop_body_fails [OF assms(2,3), of "pre = []"] obtain st2 where
    b: "loop_body E project build_dir (pre = []) e st1 = (Some (Inr (False, ?m)), st2)"
    and f: "ERROR_HAPPENED st2"
    and t: "trace st2 = trace st1 @ events_since st1 st2"
    and c: "builds (events_since st1 st2) = [build_cmd E project build_dir e]"
    by blast
  have whole: "compile_examples E project (pre @ e # post) build_dir st = (Inr (False, ?m), st2)"
    using fin b by (simp add: compile_examples_def)
  have "trace st1 = trace st @ events_since st st1"
    using l by (rule loop_extends)
  with t have "trace st2 = trace st @ (events_since st st1 @ events_since st1 st2)"
    by simp
  then have "events_since st st2 = events_since st st1 @ events_since st1 st2"
    by (rule events_sinceI)
  with fin c have "builds (events_since st st2) = map (build_cmd E project build_dir) (pre @ [e])"
    by (simp add: builds_append)
  moreover have "sublist e ?m"
    using sublist_appendI [of e "''Error building ''"] by simp
  moreover have "sublist (board_name project) ?m"
    using sublist_appendI [of "board_name project" "''Error building '' @ e @ '' for board ''"]
    by simp
  moreover have "sublist out ?m"
    using sublist_appendI [of out "''Error building '' @ e @ '' for board ''
       @ board_name project @ ''. stdout:\<newline>''" "[]"]
    by simp
  ultimately show ?thesis using whole f by simp
qed

text \<open>
  Claim C2, as amended. Let the examples \<open>pre\<close> before \<open>e\<close> all compile (the batch \<open>pre\<close>
  alone runs to its end and leaves the flag unset, in state \<open>st1\<close>), and let the compile of
  \<open>e\<close> fail there: removing the previous \<^verbatim>\<open>src\<close> directory does not raise and the build
  tool exits with a code other than 0 and the captured output \<open>out\<close>. Then
  \<^verbatim>\<open>compile_examples\<close> on \<open>pre @ e # post\<close> returns \<open>(False, m)\<close> with \<open>m\<close> the text
  \<^verbatim>\<open>Error building {e} for board {board}. stdout:\n\<close> followed by \<open>out\<close> with the library
  paths rewritten, which contains the example name, the board name and the rewritten
  output; the flag is set; and the build tool has been run for the examples of \<open>pre\<close> and
  for \<open>e\<close>, in this order, and for none of \<open>post\<close>.
\<close>

theorem failed_compile_stops_batch:
  assumes "compile_examples E project pre build_dir st = (Inr (True, ''''), st1)"
    and "\<not> ERROR_HAPPENED st1"
    and "remove_previous_src E (builddir_of E (board_name project) build_dir) st1 = (None, st2)"
    and "subprocess_run E (build_cmd E project build_dir e) (world st2) = ((returncode, out), w)"
    and "returncode \<noteq> 0"
  shows "fst (compile_examples E project (pre @ e # post) build_dir st)
           = Inr (False, ''Error building '' @ e @ '' for board '' @ board_name project
                    @ ''. stdout:\<newline>'' @ normalize_paths out)
     \<and> sublist e (''Error building '' @ e @ '' for board '' @ board_name project
                    @ ''. stdout:\<newline>'' @ normalize_paths out)
     \<and> sublist (board_name project) (''Error building '' @ e @ '' for board ''
                    @ board_name project @ ''. stdout:\<newline>'' @ normalize_paths out)
     \<and> sublist (normalize_paths out) (''Error building '' @ e @ '' for board ''
                    @ board_name project @ ''. stdout:\<newline>'' @ normalize_paths out)
     \<and> ERROR_HAPPENED (snd (compile_examples E project (pre @ e # post) build_dir st))
     \<and> builds (events_since st (snd (compile_examples E project (pre @ e # post) build_dir st)))
           = map (build_cmd E project build_dir) (pre @ [e])"
proof -
  have "subprocess_run E (cmd_list_of (board_name project)
      (builddir_of E (board_name project) build_dir) e) (world st2) = ((returncode, out), w)"
    using assms(4) by (simp add: build_cmd_def)
  from run_build_tool_result(1) [OF this] assms(3,5)
  have "fst (compile_for_board_and_example E project e build_dir st1)
      = Inr (False, normalize_paths out)"
    by (auto simp add: compile_for_board_and_example_def Let_def split: prod.splits)
  from failed_compile_message [OF assms(1,2) this] show ?thesis .
qed

theorem failed_compile_stops_batch_witness:
  "fst (compile_examples (example_sys False (header_error_on ''Fade'')) uno
         ([''Blink''] @ ''Fade'' # [''Noise'']) None (initial_state ()))
     = Inr (False, ''Error building Fade for board uno. stdout:\<newline>src/FastLED.h: error'') \<and>
   ERROR_HAPPENED (snd (compile_examples (example_sys False (header_error_on ''Fade'')) uno
         ([''Blink''] @ ''Fade'' # [''Noise'']) None (initial_state ()))) \<and>
   builds (events_since (initial_state ())
       (snd (compile_examples (example_sys False (header_error_on ''Fade'')) uno
         ([''Blink''] @ ''Fade'' # [''Noise'']) None (initial_state ()))))
     = [build_cmd (example_sys False (header_error_on ''Fade'')) uno None ''Blink'',
        build_cmd (example_sys False (header_error_on ''Fade'')) uno None ''Fade'']"
proof -
  let ?E = "example_sys False (header_error_on ''Fade'')"
  obtain st1 where 1: "compile_examples ?E uno [''Blink''] None (initial_state ())
      = (Inr (True, ''''), st1)"
    and 2: "\<not> ERROR_HAPPENED st1" and w: "world st1 = ()"
    by (simp add: run_defs header_error_on_def)
  have 3: "remove_previous_src ?E (builddir_of ?E (board_name uno) None) st1 = (None, st1)"
    using w by (simp add: run_defs)
  have 4: "subprocess_run ?E (build_cmd ?E uno None ''Fade'') (world st1)
      = ((1, ''lib/src/FastLED.h: error''), ())"
    by (simp add: run_defs header_error_on_def)
  have 5: "normalize_paths ''lib/src/FastLED.h: error'' = ''src/FastLED.h: error''"
    by (simp add: normalize_paths_def replace_def)
  from failed_compile_stops_batch [OF 1 2 3 4, of "[''Noise'']"]
  show ?thesis by (simp add: uno_def 5)
qed

text \<open>
  Claim C2 as stated fails: the build tool exits with code 1 and the output
  \<^verbatim>\<open>lib/src/FastLED.h: error\<close>, and the message returned does not contain this output; it
  contains \<^verbatim>\<open>src/FastLED.h: error\<close>.
\<close>

theorem failure_message_holds_rewritten_output:
  "subprocess_run (example_sys False header_error_tool)
       (build_cmd (example_sys False header_error_tool) uno None ''Blink'') ()
     = ((1, ''lib/src/FastLED.h: error''), ()) \<and>
   fst (compile_examples (example_sys False header_error_tool) uno [''Blink'', ''Fade''] None
         (initial_state ()))
     = Inr (False, ''Error building Blink for board uno. stdout:\<newline>src/FastLED.h: error'') \<and>
   \<not> sublist ''lib/src/FastLED.h: error''
       ''Error building Blink for board uno. stdout:\<newline>src/FastLED.h: error''"
  by (simp add: run_defs header_error_tool_def sublist_code(3))

text \<open>
  Claim C3. In every run of \<^verbatim>\<open>compile_examples\<close> the build tool is invoked for a prefix of
  the examples, in order. The invocations made while the first-build lock is held are the
  first one alone when \<^verbatim>\<open>USE_FIRST_BUILD_LOCK\<close> is true and none when it is false; all other
  invocations are made without the lock. The lock is taken once when
  \<^verbatim>\<open>USE_FIRST_BUILD_LOCK\<close> is true, there is an example and the flag is unset at the start,
  and never otherwise.
\<close>

theorem first_build_gate:
  "prefix (builds (events_since st (snd (compile_examples E project examples build_dir st))))
     (map (build_cmd E project build_dir) examples) \<and>
   builds_held False (events_since st (snd (compile_examples E project examples build_dir st)))
     = (if USE_FIRST_BUILD_LOCK E
        then take 1 (builds (events_since st (snd (compile_examples E project examples build_dir st))))
        else []) \<and>
   builds_free False (events_since st (snd (compile_examples E project examples build_dir st)))
     = (if USE_FIRST_BUILD_LOCK E
        then drop 1 (builds (events_since st (snd (compile_examples E project examples build_dir st))))
        else builds (events_since st (snd (compile_examples E project examples build_dir st)))) \<and>
   count_list (events_since st (snd (compile_examples E project examples build_dir st))) Acquire
     = (if USE_FIRST_BUILD_LOCK E \<and> examples \<noteq> [] \<and> \<not> ERROR_HAPPENED st then 1 else 0)"
proof -
  obtain r st' where c: "compile_examples_loop E project build_dir True examples st = (r, st')"
    by (cases "compile_examples_loop E project build_dir True examples st")
  from loop_trace [OF c] obtain ev where ev: "trace st' = trace st @ ev"
    "run_shape (True \<and> USE_FIRST_BUILD_LOCK E) (map (build_cmd E project build_dir) examples)
       (if True \<and> USE_FIRST_BUILD_LOCK E \<and> examples \<noteq> [] \<and> \<not> ERROR_HAPPENED st then 1 else 0) ev"
    by blast
  have "events_since st st' = ev" using ev(1) by (rule events_sinceI)
  with ev(2) c show ?thesis
    by (simp add: compile_examples_def run_shape_def)
qed

theorem first_build_gate_witness:
  "builds_held False (events_since (initial_state ())
     (snd (compile_examples (example_sys True (failing_on ''Fade'')) uno
        [''Blink'', ''Fade'', ''Noise''] None (initial_state ()))))
   = [build_cmd (example_sys True (failing_on ''Fade'')) uno None ''Blink''] \<and>
   builds_free False (events_since (initial_state ())
     (snd (compile_examples (example_sys True (failing_on ''Fade'')) uno
        [''Blink'', ''Fade'', ''Noise''] None (initial_state ()))))
   = [build_cmd (example_sys True (failing_on ''Fade'')) uno None ''Fade''] \<and>
   count_list (events_since (initial_state ())
     (snd (compile_examples (example_sys True (failing_on ''Fade'')) uno
        [''Blink'', ''Fade'', ''Noise''] None (initial_state ())))) Acquire = 1"
proof -
  have b: "builds (events_since (initial_state ())
     (snd (compile_examples (example_sys True (failing_on ''Fade'')) uno
        [''Blink'', ''Fade'', ''Noise''] None (initial_state ()))))
   = [build_cmd (example_sys True (failing_on ''Fade'')) uno None ''Blink'',
      build_cmd (example_sys True (failing_on ''Fade'')) uno None ''Fade'']"
    by (simp add: run_defs)
  have u: "USE_FIRST_BUILD_LOCK (example_sys True (failing_on ''Fade''))"
    by (simp add: USE_FIRST_BUILD_LOCK_def IS_GITHUB_def example_sys_def)
  have i: "\<not> ERROR_HAPPENED (initial_state ())"
    by (simp add: initial_state_def)
  from first_build_gate [of "initial_state ()" "example_sys True (failing_on ''Fade'')" uno
      "[''Blink'', ''Fade'', ''Noise'']" None]
  show ?thesis unfolding b using u i by simp
qed

text \<open>
  Claim C4, as amended. When removing the previous \<^verbatim>\<open>src\<close> directory does not raise,
  \<^verbatim>\<open>compile_for_board_and_example\<close> returns \<open>(returncode = 0, n)\<close> where \<open>n\<close> is the captured
  output of the build tool with both spellings of the library path rewritten: the
  rewriting is done before the exit code is looked at, on failure as on success. When
  removing the directory fails, the function raises.
\<close>

theorem compile_result_is_normalized:
  "(remove_previous_src E (builddir_of E (board_name project) build_dir) st = (None, st2) \<and>
    subprocess_run E (build_cmd E project build_dir example) (world st2) = ((returncode, out), w)
    \<longrightarrow> fst (compile_for_board_and_example E project example build_dir st)
          = Inr (returncode = 0, normalize_paths out)) \<and>
   (remove_previous_src E (builddir_of E (board_name project) build_dir) st = (Some e, st2)
    \<longrightarrow> fst (compile_for_board_and_example E project example build_dir st) = Inl e)"
proof (intro conjI impI)
  assume a: "remove_previous_src E (builddir_of E (board_name project) build_dir) st = (None, st2) \<and>
    subprocess_run E (build_cmd E project build_dir example) (world st2) = ((returncode, out), w)"
  then have "subprocess_run E (cmd_list_of (board_name project)
      (builddir_of E (board_name project) build_dir) example) (world st2) = ((returncode, out), w)"
    by (simp add: build_cmd_def)
  from run_build_tool_result(1) [OF this] a
  show "fst (compile_for_board_and_example E project example build_dir st)
          = Inr (returncode = 0, normalize_paths out)"
    by (auto simp add: compile_for_board_and_example_def Let_def split: prod.splits)
next
  assume "remove_previous_src E (builddir_of E (board_name project) build_dir) st = (Some e, st2)"
  then show "fst (compile_for_board_and_example E project example build_dir st) = Inl e"
    by (simp add: compile_for_board_and_example_def Let_def)
qed

theorem compile_result_is_normalized_witness:
  "fst (compile_for_board_and_example (example_sys False header_error_tool) uno ''Blink'' None
         (initial_state ()))
     = Inr (False, ''src/FastLED.h: error'')"
proof -
  have 1: "remove_previous_src (example_sys False header_error_tool)
       (builddir_of (example_sys False header_error_tool) (board_name uno) None)
       (initial_state ()) = (None, initial_state ())"
    by (simp add: run_defs)
  have 2: "subprocess_run (example_sys False header_error_tool)
       (build_cmd (example_sys False header_error_tool) uno None ''Blink'')
       (world (initial_state ())) = ((1, ''lib/src/FastLED.h: error''), ())"
    by (simp add: example_sys_def header_error_tool_def)
  have 3: "normalize_paths ''lib/src/FastLED.h: error'' = ''src/FastLED.h: error''"
    by (simp add: normalize_paths_def replace_def)
  from compile_result_is_normalized [of "example_sys False header_error_tool" uno None
      "initial_state ()" "initial_state ()" "''Blink''" 1 "''lib/src/FastLED.h: error''" "()"] 1 2 3
  show ?thesis by simp
qed

text \<open>
  Claim C4 as stated fails: the build tool exits with code 1 and the output
  \<^verbatim>\<open>lib/src/FastLED.h: error\<close>, and the text returned is not this output.
\<close>

theorem failed_build_output_is_rewritten:
  "subprocess_run (example_sys False header_error_tool)
       (build_cmd (example_sys False header_error_tool) uno None ''Blink'') ()
     = ((1, ''lib/src/FastLED.h: error''), ()) \<and>
   fst (compile_for_board_and_example (example_sys False header_error_tool) uno ''Blink'' None
         (initial_state ()))
     \<noteq> Inr (False, ''lib/src/FastLED.h: error'')"
  by (simp add: run_defs header_error_tool_def)

lemma replace_scan_absent:
  "\<not> sublist old s \<Longrightarrow> replace_scan old new s = s"
proof (induction s)
  case Nil
  then show ?case by simp
next
  case (Cons c cs)
  then have "\<not> prefix old (c # cs)" and "\<not> sublist old cs"
    by (auto simp add: sublist_Cons_right)
  with Cons.IH show ?case by simp
qed

lemma replace_scan_first:
  assumes "old \<noteq> []" and "\<not> sublist old (a @ butlast old)"
  shows "replace_scan old new (a @ old @ b) = a @ new @ replace_scan old new b"
  using assms(2)
proof (induction a)
  case Nil
  from assms(1) obtain c cs where o: "old = c # cs" by (cases old) auto
  have "replace_scan old new (old @ b) = new @ replace_scan old new (drop (length old) (old @ b))"
    unfolding o by simp
  then show ?case by simp
next
  case (Cons x a)
  have np: "\<not> prefix old (x # a @ old @ b)"
  proof
    assume p: "prefix old (x # a @ old @ b)"
    have "length old \<le> length (x # a @ butlast old)" by simp
    moreover have "x # a @ old @ b = (x # a @ butlast old) @ (last old # b)"
      using assms(1) by simp
    ultimately have "prefix old (x # a @ butlast old)"
      using p by (metis prefix_length_prefix prefixI)
    then have "sublist old ((x # a) @ butlast old)"
      by simp
    with Cons.prems show False by simp
  qed
  have "\<not> sublist old (a @ butlast old)"
    using Cons.prems by (simp add: sublist_Cons_right)
  from Cons.IH [OF this] np show ?case by simp
qed

text \<open>
  Claim C5, as amended. \<^verbatim>\<open>replace\<close> rewrites the leftmost occurrence of \<open>old\<close> and goes on
  behind it, and changes nothing in a text without an occurrence. The normalisation
  rewrites \<^verbatim>\<open>lib/src\<close> and then, in the result, \<^verbatim>\<open>lib\src\<close>; it is the identity on a text
  that contains neither spelling, and applying it again changes nothing when its result
  contains neither spelling.
\<close>

theorem normalize_paths_rewrites:
  "(old \<noteq> [] \<and> \<not> sublist old (a @ butlast old) \<longrightarrow>
      replace old new (a @ old @ b) = a @ new @ replace old new b) \<and>
   (old \<noteq> [] \<and> \<not> sublist old s \<longrightarrow> replace old new s = s) \<and>
   normalize_paths s
     = replace (''lib'' @ [CHR 0x5C] @ ''src'') ''src'' (replace ''lib/src'' ''src'' s) \<and>
   (\<not> sublist ''lib/src'' s \<and> \<not> sublist (''lib'' @ [CHR 0x5C] @ ''src'') s \<longrightarrow>
      normalize_paths s = s) \<and>
   (\<not> sublist ''lib/src'' (normalize_paths s) \<and>
    \<not> sublist (''lib'' @ [CHR 0x5C] @ ''src'') (normalize_paths s) \<longrightarrow>
      normalize_paths (normalize_paths s) = normalize_paths s)"
proof -
  have id: "normalize_paths t = t"
    if "\<not> sublist ''lib/src'' t" "\<not> sublist (''lib'' @ [CHR 0x5C] @ ''src'') t" for t
    using that by (simp add: normalize_paths_def replace_def replace_scan_absent)
  show ?thesis
    using id [of s] id [of "normalize_paths s"]
    by (auto simp add: replace_def replace_scan_first replace_scan_absent normalize_paths_def)
qed

theorem normalize_paths_rewrites_witness:
  "replace ''lib/src'' ''src'' (''a '' @ ''lib/src'' @ '' b'') = ''a src b'' \<and>
   normalize_paths ''no alias here'' = ''no alias here'' \<and>
   normalize_paths (normalize_paths ''no alias here'') = normalize_paths ''no alias here''"
proof -
  have 1: "''lib/src'' \<noteq> [] \<and> \<not> sublist ''lib/src'' (''a '' @ butlast ''lib/src'')"
    by (simp add: sublist_code(3))
  have 2: "replace ''lib/src'' ''src'' '' b'' = '' b''"
    by (simp add: replace_def)
  have 3: "\<not> sublist ''lib/src'' ''no alias here'' \<and>
      \<not> sublist (''lib'' @ [CHR 0x5C] @ ''src'') ''no alias here''"
    by (simp add: sublist_code(3))
  note t = normalize_paths_rewrites [where old = "''lib/src''" and a = "''a ''"
      and new = "''src''" and b = "'' b''" and s = "''no alias here''"]
  from t 1 have "replace ''lib/src'' ''src'' (''a '' @ ''lib/src'' @ '' b'')
      = ''a '' @ ''src'' @ replace ''lib/src'' ''src'' '' b''"
    by blast
  with 2 have a: "replace ''lib/src'' ''src'' (''a '' @ ''lib/src'' @ '' b'') = ''a src b''"
    by simp
  from t 3 have m: "normalize_paths ''no alias here'' = ''no alias here''"
    by blast
  with a show ?thesis by simp
qed

text \<open>
  Claim C5 as stated fails: rewriting \<^verbatim>\<open>lib/lib/src\<close> gives \<^verbatim>\<open>lib/src\<close>, which still
  contains the alias, and rewriting again gives \<^verbatim>\<open>src\<close>.
\<close>

theorem normalize_paths_not_idempotent:
  "normalize_paths (normalize_paths ''lib/lib/src'') \<noteq> normalize_paths ''lib/lib/src'' \<and>
   sublist ''lib/src'' (normalize_paths ''lib/lib/src'')"
  by (simp add: normalize_paths_def replace_def sublist_code(3))

text \<open>
  What a step of a thread does to the flag, and a thread running alone: it takes the steps
  of \<^verbatim>\<open>compile_examples\<close> and ends in the state and with the result of that function.
\<close>

lemma thread_step_flag:
  "ERROR_HAPPENED (fst (snd (thread_step E i t st holder))) =
     (ERROR_HAPPENED st \<or> (\<exists>e m. t_pc t = At_result e (Inr (False, m))))"
proof (cases "t_pc t")
  case (At_prepare example held)
  obtain eo st2 where r: "remove_previous_src E
      (builddir_of E (board_name (t_project t)) (t_build_dir t)) st = (eo, st2)"
    by (cases "remove_previous_src E (builddir_of E (board_name (t_project t)) (t_build_dir t)) st")
  from remove_previous_src_frame(1) [OF r] r At_prepare show ?thesis
    by (simp add: thread_step_def Let_def split: option.splits)
next
  case (At_tool example held)
  obtain r st7 where r: "run_build_tool E (board_name (t_project t))
      (builddir_of E (board_name (t_project t)) (t_build_dir t)) example st = (r, st7)"
    by (cases "run_build_tool E (board_name (t_project t))
      (builddir_of E (board_name (t_project t)) (t_build_dir t)) example st")
  from run_build_tool_frame(1) [OF r] r At_tool show ?thesis
    by (simp add: thread_step_def Let_def)
next
  case (At_result example r)
  then show ?thesis
    by (cases r) (auto simp add: thread_step_def Let_def split: prod.splits)
qed (auto simp add: thread_step_def Let_def locked_print_def split: list.splits option.splits)

lemma system_step_flag:
  "ERROR_HAPPENED (shared (system_step E i s)) =
     (ERROR_HAPPENED (shared s) \<or>
      (i < length (threads s) \<and> (\<exists>e m. t_pc (threads s ! i) = At_result e (Inr (False, m)))))"
proof (cases "i < length (threads s)")
  case True
  obtain t st holder where r: "thread_step E i (threads s ! i) (shared s) (lock_holder s)
      = (t, st, holder)"
    by (cases "thread_step E i (threads s ! i) (shared s) (lock_holder s)") auto
  with thread_step_flag [of E i "threads s ! i" "shared s" "lock_holder s"] True
  show ?thesis by (simp add: system_step_def)
next
  case False
  then show ?thesis by (simp add: system_step_def)
qed

lemma run_threads_flag:
  "ERROR_HAPPENED (shared s) \<Longrightarrow> ERROR_HAPPENED (shared (run_threads E sched s))"
  by (induction sched arbitrary: s) (simp_all add: system_step_flag)

lemma run_threads_append:
  "run_threads E (a @ b) s = run_threads E b (run_threads E a s)"
  by (induction a arbitrary: s) simp_all

lemma returned_stays:
  "t_pc t = Returned r \<Longrightarrow>
     run_threads E (replicate k 0) \<lparr>shared = st, lock_holder = holder, threads = [t]\<rparr>
       = \<lparr>shared = st, lock_holder = holder, threads = [t]\<rparr>"
proof (induction k)
  case 0
  then show ?case by simp
next
  case (Suc k)
  have "system_step E 0 \<lparr>shared = st, lock_holder = holder, threads = [t]\<rparr>
      = \<lparr>shared = st, lock_holder = holder, threads = [t]\<rparr>"
    using Suc.prems by (simp add: system_step_def thread_step_def Let_def)
  with Suc show ?case by simp
qed

lemma thread_alone:
  "7 * length examples + 1 \<le> n \<Longrightarrow>
   \<exists>t'. run_threads E (replicate n 0)
          \<lparr>shared = st, lock_holder = None,
           threads = [\<lparr>t_project = project, t_build_dir = build_dir, t_is_first = is_first,
                       t_remaining = examples, t_pc = At_loop_head\<rparr>]\<rparr>
        = \<lparr>shared = snd (compile_examples_loop E project build_dir is_first examples st),
           lock_holder = None, threads = [t']\<rparr>
      \<and> t_pc t' = Returned (fst (compile_examples_loop E project build_dir is_first examples st))"
proof (induction examples arbitrary: n is_first st)
  case Nil
  then obtain k where n: "n = Suc k" by (cases n) auto
  show ?case unfolding n
    by (simp add: system_step_def thread_step_def Let_def returned_stays)
next
  case (Cons example examples)
  define k where "k = n - 7"
  have n: "n = Suc (Suc (Suc (Suc (Suc (Suc (Suc k))))))"
    and k: "7 * length examples + 1 \<le> k"
    using Cons.prems by (simp_all add: k_def)
  let ?board = "board_name project"
  let ?bd = "builddir_of E ?board build_dir"
  show ?case
  proof (cases "ERROR_HAPPENED st")
    case True
    then show ?thesis unfolding n
      by (simp add: system_step_def thread_step_def Let_def returned_stays loop_body_def)
  next
    case False
    define S0 where "S0 = (if is_first
        then locked_print (''*** Building for first example '' @ example
               @ '' board '' @ ?board @ '' ***'')
              (locked_print (''\<newline>*** Building '' @ example @ '' for board '' @ ?board
                 @ '' ***'') st)
        else locked_print (''\<newline>*** Building '' @ example @ '' for board '' @ ?board
                 @ '' ***'') st)"
    define g where "g = (is_first \<and> USE_FIRST_BUILD_LOCK E)"
    define S1 where "S1 = (if g then S0\<lparr>trace := trace S0 @ [Acquire]\<rparr> else S0)"
    obtain eo S2 where rm: "remove_previous_src E ?bd S1 = (eo, S2)"
      by (cases "remove_previous_src E ?bd S1")
    obtain r S7 where tool: "run_build_tool E ?board ?bd example S2 = (r, S7)"
      by (cases "run_build_tool E ?board ?bd example S2")
    obtain success message where r: "r = (success, message)" by (cases r)
    define S8 where "S8 = (if g then S7\<lparr>trace := trace S7 @ [Release]\<rparr> else S7)"
    have body: "loop_body E project build_dir is_first example st =
       (case eo of
          Some x \<Rightarrow> (Some (Inl x), if g then S2\<lparr>trace := trace S2 @ [Release]\<rparr> else S2)
        | None \<Rightarrow>
            if success then (None, S8)
            else (Some (Inr (False, ''Error building '' @ example @ '' for board '' @ ?board
                     @ ''. stdout:\<newline>'' @ message)), S8\<lparr>ERROR_HAPPENED := True\<rparr>))"
      using False rm tool r
      unfolding S0_def S1_def S8_def g_def
      by (cases is_first; cases "USE_FIRST_BUILD_LOCK E"; cases eo)
         (simp_all add: loop_body_def first_build_compile_def
           compile_for_board_and_example_def Let_def)
    have four: "run_threads E (replicate n 0)
          \<lparr>shared = st, lock_holder = None,
           threads = [\<lparr>t_project = project, t_build_dir = build_dir, t_is_first = is_first,
                       t_remaining = example # examples, t_pc = At_loop_head\<rparr>]\<rparr>
        = run_threads E (replicate (Suc (Suc (Suc k))) 0)
          \<lparr>shared = S2, lock_holder = (if g then Some 0 else None),
           threads = [\<lparr>t_project = project, t_build_dir = build_dir, t_is_first = is_first,
                       t_remaining = examples,
                       t_pc = (case eo of
                                 None \<Rightarrow> At_tool example g
                               | Some x \<Rightarrow> if g then At_release example (Inl x)
                                           else At_result example (Inl x))\<rparr>]\<rparr>"
      using False rm unfolding n S0_def S1_def g_def
      by (cases is_first; cases "USE_FIRST_BUILD_LOCK E"; cases eo)
         (simp_all add: system_step_def thread_step_def Let_def)
    let ?next = "\<lparr>shared = S8, lock_holder = None,
           threads = [\<lparr>t_project = project, t_build_dir = build_dir, t_is_first = False,
                       t_remaining = examples, t_pc = At_loop_head\<rparr>]\<rparr>"
    show ?thesis
    proof (cases eo)
      case (Some x)
      then show ?thesis unfolding four
        by (cases g) (simp_all add: body system_step_def thread_step_def Let_def returned_stays)
    next
      case None
      show ?thesis
      proof (cases success)
        case False
        with None tool r show ?thesis unfolding four S8_def
          by (cases g)
             (simp_all add: body S8_def system_step_def thread_step_def Let_def returned_stays)
      next
        case True
        show ?thesis
        proof (cases g)
          case gated: True
          have "run_threads E (replicate (Suc (Suc (Suc k))) 0)
                  \<lparr>shared = S2, lock_holder = Some 0,
                   threads = [\<lparr>t_project = project, t_build_dir = build_dir,
                               t_is_first = is_first, t_remaining = examples,
                               t_pc = At_tool example True\<rparr>]\<rparr>
              = run_threads E (replicate k 0) ?next"
            using tool r True gated unfolding S8_def
            by (simp add: system_step_def thread_step_def Let_def)
          with Cons.IH [OF k, where is_first = False and st = S8] None True gated show ?thesis
            unfolding four by (simp add: body)
        next
          case free: False
          have "run_threads E (replicate (Suc (Suc (Suc k))) 0)
                  \<lparr>shared = S2, lock_holder = None,
                   threads = [\<lparr>t_project = project, t_build_dir = build_dir,
                               t_is_first = is_first, t_remaining = examples,
                               t_pc = At_tool example False\<rparr>]\<rparr>
              = run_threads E (replicate (Suc k) 0) ?next"
            using tool r True free unfolding S8_def
            by (simp add: system_step_def thread_step_def Let_def)
          moreover have "7 * length examples + 1 \<le> Suc k" using k by simp
          note Cons.IH [OF this, where is_first = False and st = S8]
          ultimately show ?thesis using None True free
            unfolding four by (simp add: body)
        qed
      qed
    qed
  qed
qed

lemma thread_alone_is_compile_examples:
  assumes "7 * length examples + 1 \<le> n"
  shows "\<exists>t'. run_threads E (replicate n 0)
            \<lparr>shared = st, lock_holder = None,
             threads = [start_thread project examples build_dir]\<rparr>
          = \<lparr>shared = snd (compile_examples E project examples build_dir st),
             lock_holder = None, threads = [t']\<rparr>
        \<and> t_pc t' = Returned (fst (compile_examples E project examples build_dir st))"
  using thread_alone [OF assms] by (simp add: start_thread_def compile_examples_def)

lemma loop_body_flag:
  "ERROR_HAPPENED (snd (loop_body E project build_dir is_first example st)) =
     (ERROR_HAPPENED st \<or>
      (\<exists>m. fst (compile_for_board_and_example E project example build_dir st) = Inr (False, m)))"
proof (cases "ERROR_HAPPENED st")
  case True
  then show ?thesis by (simp add: loop_body_def)
next
  case False
  obtain x st' where b: "loop_body E project build_dir is_first example st = (x, st')"
    by (cases "loop_body E project build_dir is_first example st")
  from loop_body_run [OF False b] False b show ?thesis
    by (auto split: sum.splits prod.splits)
qed

text \<open>
  Claim C9. The flag is unset when the module is loaded. \<^verbatim>\<open>errors_happened\<close> reads it and
  \<^verbatim>\<open>compile_for_board_and_example\<close> leaves it as it is. After a pass through the loop of
  \<^verbatim>\<open>compile_examples\<close> it is set exactly when it was set before or the compile of the pass
  has failed, and a batch started with the flag set ends with the flag set. For threads
  running side by side, whatever the schedule: after a step of a thread the flag is set
  exactly when it was set before or the thread was on lines 100 to 106 with a failed
  compile, so the only write sets it; and once \<^verbatim>\<open>errors_happened()\<close> is true it is true
  after every further step of any thread.
\<close>

theorem error_flag_is_monotone:
  "\<not> ERROR_HAPPENED (initial_state w) \<and>
   errors_happened st = (ERROR_HAPPENED st, st) \<and>
   ERROR_HAPPENED (snd (compile_for_board_and_example E project example build_dir st))
     = ERROR_HAPPENED st \<and>
   ERROR_HAPPENED (snd (loop_body E project build_dir is_first example st)) =
     (ERROR_HAPPENED st \<or>
      (\<exists>m. fst (compile_for_board_and_example E project example build_dir st) = Inr (False, m))) \<and>
   (ERROR_HAPPENED st \<longrightarrow>
      ERROR_HAPPENED (snd (compile_examples E project examples build_dir st))) \<and>
   ERROR_HAPPENED (shared (system_step E i s)) =
     (ERROR_HAPPENED (shared s) \<or>
      (i < length (threads s) \<and> (\<exists>e m. t_pc (threads s ! i) = At_result e (Inr (False, m))))) \<and>
   (fst (errors_happened (shared (run_threads E sched s))) \<longrightarrow>
      fst (errors_happened (shared (run_threads E (sched @ rest) s))))"
proof -
  have "ERROR_HAPPENED (snd (compile_for_board_and_example E project example build_dir st))
     = ERROR_HAPPENED st"
    using compile_frame(1) [of E project example build_dir st]
    by (cases "compile_for_board_and_example E project example build_dir st") simp
  moreover have "ERROR_HAPPENED st \<longrightarrow>
      ERROR_HAPPENED (snd (compile_examples E project examples build_dir st))"
    by (simp add: compile_examples_def loop_abort)
  moreover have "fst (errors_happened (shared (run_threads E sched s))) \<longrightarrow>
      fst (errors_happened (shared (run_threads E (sched @ rest) s)))"
    using run_threads_flag [of "run_threads E sched s" E rest]
    by (simp add: run_threads_append errors_happened_def)
  ultimately show ?thesis
    using loop_body_flag [of E project build_dir is_first example st]
      system_step_flag [of E i s]
    by (simp add: initial_state_def errors_happened_def)
qed

theorem error_flag_is_monotone_witness:
  "ERROR_HAPPENED (shared (run_threads (example_sys True (failing_on ''Blink''))
      [1, 1, 0, 0, 0, 1, 0, 0, 0, 0]
      (start_system () [start_thread uno [''Blink''] None,
                        start_thread esp32 [''Fade'', ''Noise''] None]))) \<and>
   ERROR_HAPPENED (shared (run_threads (example_sys True (failing_on ''Blink''))
      ([1, 1, 0, 0, 0, 1, 0, 0, 0, 0] @ [1, 1, 1, 1, 1, 1])
      (start_system () [start_thread uno [''Blink''] None,
                        start_thread esp32 [''Fade'', ''Noise''] None]))) \<and>
   map t_pc (threads (run_threads (example_sys True (failing_on ''Blink''))
      ([1, 1, 0, 0, 0, 1, 0, 0, 0, 0] @ [1, 1, 1, 1, 1, 1])
      (start_system () [start_thread uno [''Blink''] None,
                        start_thread esp32 [''Fade'', ''Noise''] None])))
     = [Returned (Inr (False, ''Error building Blink for board uno. stdout:\<newline>boom'')),
        Returned (Inr (True, ''''))]"
proof -
  let ?E = "example_sys True (failing_on ''Blink'')"
  let ?s = "start_system () [start_thread uno [''Blink''] None,
                        start_thread esp32 [''Fade'', ''Noise''] None]"
  have 1: "ERROR_HAPPENED (shared (run_threads ?E [1, 1, 0, 0, 0, 1, 0, 0, 0, 0] ?s))"
    by (simp add: run_defs system_step_def thread_step_def start_thread_def start_system_def)
  have 3: "map t_pc (threads (run_threads ?E ([1, 1, 0, 0, 0, 1, 0, 0, 0, 0] @ [1, 1, 1, 1, 1, 1]) ?s))
     = [Returned (Inr (False, ''Error building Blink for board uno. stdout:\<newline>boom'')),
        Returned (Inr (True, ''''))]"
    by (simp add: run_defs system_step_def thread_step_def start_thread_def start_system_def)
  note m = error_flag_is_monotone [where E = ?E and sched = "[1, 1, 0, 0, 0, 1, 0, 0, 0, 0]"
      and rest = "[1, 1, 1, 1, 1, 1]" and s = ?s, THEN conjunct2, THEN conjunct2,
      THEN conjunct2, THEN conjunct2, THEN conjunct2, THEN conjunct2,
      unfolded errors_happened_def fst_conv]
  have 2: "ERROR_HAPPENED (shared (run_threads ?E ([1, 1, 0, 0, 0, 1, 0, 0, 0, 0] @ [1, 1, 1, 1, 1, 1]) ?s))"
    using m 1 by (rule mp)
  from 1 2 3 show ?thesis by (intro conjI)
qed

text \<open>
  Claim C10. On an empty sequence of examples \<^verbatim>\<open>compile_examples\<close> returns \<open>(True, "")\<close>
  and leaves the state as it is: the flag is not written, and the trace gains no event,
  so no command is run and the lock is not taken.
\<close>

theorem empty_batch_returns_success:
  "compile_examples E project [] build_dir st = (Inr (True, ''''), st) \<and>
   events_since st (snd (compile_examples E project [] build_dir st)) = []"
  by (simp add: compile_examples_def events_since_def)

section \<open>The claims about the docs publisher\<close>

text \<open>
  Claim C6. Let the query for the latest tag give \<open>tagged\<close> (the latest tag is its
  stripped output, and empty when the query fails), and the two queries for the commit
  give the short and the full SHA. Then \<^verbatim>\<open>get_git_info\<close> returns as version the release tag
  of the environment if it is not empty, else the latest tag if it is not empty, else the
  short SHA; and as commit message the version followed by the full SHA in parentheses
  when the version differs from the short SHA, and the version alone otherwise.
\<close>

theorem version_resolution:
  assumes "run D ''git tag | grep -E '^[0-9]' | sort -V | tail -1'' None True w0 = (tagged, w1)"
    and "run D ''git rev-parse --short HEAD'' None True w1 = (Inr git_sha_short, w2)"
    and "run D ''git rev-parse HEAD'' None True w2 = (Inr full_sha, w3)"
    and "release_tag = (case d_environ D w0 ''RELEASE_TAG'' of Some v \<Rightarrow> v | None \<Rightarrow> '''')"
    and "latest_tag = (case tagged of Inr t \<Rightarrow> t | Inl e \<Rightarrow> '''')"
    and "project_number = (if release_tag \<noteq> [] then release_tag
                           else if latest_tag \<noteq> [] then latest_tag else git_sha_short)"
  shows "get_git_info D w0 =
           (Inr (project_number,
                 if project_number \<noteq> git_sha_short
                 then project_number @ '' ('' @ full_sha @ '')'' else project_number), w3)"
proof -
  have "query_latest_tag D w0 = (Inr latest_tag, w1)"
    using assms(1,5)
    by (auto simp add: query_latest_tag_def run_def split: prod.splits if_splits)
  then show ?thesis
    using assms(2-4,6) by (simp add: get_git_info_def Let_def)
qed

theorem version_resolution_witness:
  "get_git_info (example_docs Map.empty git_script []) ()
     = (Inr (''3.9.2'', ''3.9.2 (abc1234def5678)''), ())"
proof -
  have s: "strip ''3.9.2\<newline>'' = ''3.9.2''" "strip ''abc1234\<newline>'' = ''abc1234''"
    "strip ''abc1234def5678\<newline>'' = ''abc1234def5678''"
    by (simp_all add: strip_def isspace_def)
  have 1: "run (example_docs Map.empty git_script [])
      ''git tag | grep -E '^[0-9]' | sort -V | tail -1'' None True () = (Inr ''3.9.2'', ())"
    by (simp add: run_def example_docs_def git_script_def s)
  have 2: "run (example_docs Map.empty git_script []) ''git rev-parse --short HEAD'' None True ()
      = (Inr ''abc1234'', ())"
    by (simp add: run_def example_docs_def git_script_def s)
  have 3: "run (example_docs Map.empty git_script []) ''git rev-parse HEAD'' None True ()
      = (Inr ''abc1234def5678'', ())"
    by (simp add: run_def example_docs_def git_script_def s)
  from version_resolution [OF 1 2 3, of "''''" "''3.9.2''" "''3.9.2''"]
  show ?thesis by (simp add: example_docs_def)
qed





subsection \<open>The substitution, match by match and line by line\<close>

lemma isspace_simps [simp]:
  "\<not> isspace (CHR ''P'')" "\<not> isspace (CHR ''='')" "isspace (CHR '' '')" "isspace (CHR 0x0A)"
  by (simp_all add: isspace_def)

lemma match_not_key: "\<not> prefix ''PROJECT_NUMBER'' s \<Longrightarrow> match_project_number s = None"
  by (simp add: match_project_number_def)

lemma match_key:
  "match_project_number (''PROJECT_NUMBER'' @ x) =
     (case dropWhile isspace x of
        [] \<Rightarrow> None
      | d # s3 \<Rightarrow>
          if d = CHR ''=''
          then Some (''PROJECT_NUMBER'' @ takeWhile isspace x @ ''=''
                       @ takeWhile (\<lambda>c. c \<noteq> CHR 0x0A) s3,
                     dropWhile (\<lambda>c. c \<noteq> CHR 0x0A) s3)
          else None)"
  by (simp add: match_project_number_def)

lemma match_prefix:
  "match_project_number s = Some (m, rest) \<Longrightarrow> \<exists>x. s = ''PROJECT_NUMBER'' @ x"
  by (cases "prefix ''PROJECT_NUMBER'' s") (auto simp add: match_not_key prefix_def)

lemma match_rest:
  assumes "match_project_number s = Some (m, rest)"
  shows "s = m @ rest" and "rest = [] \<or> hd rest = CHR 0x0A"
proof -
  from match_prefix [OF assms] obtain x where s: "s = ''PROJECT_NUMBER'' @ x" by blast
  from assms obtain s3 where d: "dropWhile isspace x = CHR ''='' # s3"
    and m: "m = ''PROJECT_NUMBER'' @ takeWhile isspace x @ ''='' @ takeWhile (\<lambda>c. c \<noteq> CHR 0x0A) s3"
    and r: "rest = dropWhile (\<lambda>c. c \<noteq> CHR 0x0A) s3"
    unfolding s match_key by (auto split: list.splits if_splits)
  have "x = takeWhile isspace x @ CHR ''='' # s3"
    using d takeWhile_dropWhile_id [of isspace x] by simp
  then have "x = takeWhile isspace x @ ''='' @ takeWhile (\<lambda>c. c \<noteq> CHR 0x0A) s3 @ rest"
    using r by simp
  then show "s = m @ rest" unfolding s m by simp
  show "rest = [] \<or> hd rest = CHR 0x0A"
    unfolding r using hd_dropWhile [of "\<lambda>c. c \<noteq> CHR 0x0A" s3] by auto
qed

lemma scan_copy:
  "CHR 0x0A \<notin> set k \<Longrightarrow> re_sub_scan f False (k @ s) = k @ re_sub_scan f False s"
  by (induction k) auto

lemma scan_whitespace:
  "list_all isspace ws \<Longrightarrow>
     re_sub_scan f b (ws @ s) = ws @ re_sub_scan f (if ws = [] then b else last ws = CHR 0x0A) s"
proof (induction ws arbitrary: b)
  case Nil
  then show ?case by simp
next
  case (Cons w ws)
  then have "w \<noteq> CHR ''P''" by auto
  then have "match_project_number (w # ws @ s) = None"
    by (simp add: match_not_key)
  with Cons show ?case by simp
qed

lemma scan_head:
  assumes "\<And>m. \<exists>r. f m = CHR ''P'' # r"
  shows "\<exists>t. re_sub_scan f b (c # cs) = c # t"
proof (cases b)
  case False
  then show ?thesis by simp
next
  case True
  show ?thesis
  proof (cases "match_project_number (c # cs)")
    case None
    with True show ?thesis by simp
  next
    case (Some p)
    obtain m rest where p: "p = (m, rest)" by (cases p)
    from match_prefix [OF Some [unfolded p]] have "c = CHR ''P''" by auto
    moreover from assms obtain r where "f m = CHR ''P'' # r" by blast
    ultimately show ?thesis using Some p True by simp
  qed
qed

lemma scan_prefix_reflect:
  "CHR 0x0A \<notin> set k \<Longrightarrow> prefix k (re_sub_scan f False s) \<Longrightarrow> prefix k s"
proof (induction k arbitrary: s)
  case Nil
  then show ?case by simp
next
  case (Cons a k)
  from Cons.prems(2) obtain d ds where s: "s = d # ds" by (cases s) auto
  with Cons.prems have "d = a" and "prefix k (re_sub_scan f False ds)"
    by auto
  with Cons.IH [of ds] Cons.prems(1) s show ?case by simp
qed

lemma no_match_stable:
  assumes f: "\<And>m. \<exists>r. f m = CHR ''P'' # r"
    and n: "match_project_number (c # cs) = None"
  shows "match_project_number (c # re_sub_scan f (c = CHR 0x0A) cs) = None"
proof (cases "prefix ''PROJECT_NUMBER'' (c # cs)")
  case False
  have "\<not> prefix ''PROJECT_NUMBER'' (c # re_sub_scan f (c = CHR 0x0A) cs)"
  proof
    assume p: "prefix ''PROJECT_NUMBER'' (c # re_sub_scan f (c = CHR 0x0A) cs)"
    then have c: "c = CHR ''P''" by simp
    with p have "prefix ''ROJECT_NUMBER'' (re_sub_scan f False cs)" by simp
    then have "prefix ''ROJECT_NUMBER'' cs"
      by (rule scan_prefix_reflect [rotated]) simp
    with c False show False by simp
  qed
  then show ?thesis by (rule match_not_key)
next
  case True
  then obtain x where x: "c # cs = ''PROJECT_NUMBER'' @ x"
    by (auto simp add: prefix_def)
  then have c: "c = CHR ''P''" and cs: "cs = ''ROJECT_NUMBER'' @ x" by simp_all
  define ws where "ws = takeWhile isspace x"
  define s2 where "s2 = dropWhile isspace x"
  have xs: "x = ws @ s2"
    by (simp add: ws_def s2_def)
  have wsp: "list_all isspace ws"
    by (auto simp add: ws_def list_all_iff dest: set_takeWhileD)
  have "re_sub_scan f (c = CHR 0x0A) cs = ''ROJECT_NUMBER'' @ re_sub_scan f False x"
    unfolding cs using c scan_copy [of "''ROJECT_NUMBER''" f x] by simp
  also have "re_sub_scan f False x
      = ws @ re_sub_scan f (if ws = [] then False else last ws = CHR 0x0A) s2"
    unfolding xs using wsp by (rule scan_whitespace)
  finally have out: "c # re_sub_scan f (c = CHR 0x0A) cs
      = ''PROJECT_NUMBER'' @ (ws @ re_sub_scan f (if ws = [] then False else last ws = CHR 0x0A) s2)"
    using c by simp
  have dw: "dropWhile isspace (ws @ y) = dropWhile isspace y" for y
    using wsp by (simp add: list_all_iff)
  have dws: "dropWhile isspace ws = []"
    using wsp by (simp add: list_all_iff)
  from n have n': "match_project_number (''PROJECT_NUMBER'' @ x) = None"
    unfolding x .
  show ?thesis
  proof (cases s2)
    case Nil
    then show ?thesis unfolding out match_key by (simp add: dws)
  next
    case (Cons d ds)
    have nd: "\<not> isspace d"
      using Cons hd_dropWhile [of isspace x] unfolding s2_def by simp
    have deq: "d \<noteq> CHR ''=''"
      using n' Cons unfolding match_key s2_def by (auto split: list.splits if_splits)
    from scan_head [OF f, where b = "if ws = [] then False else last ws = CHR 0x0A"
          and c = d and cs = ds]
    obtain t where t: "re_sub_scan f (if ws = [] then False else last ws = CHR 0x0A) (d # ds) = d # t"
      ..
    show ?thesis
      unfolding out match_key Cons t using nd deq by (simp add: dw)
  qed
qed

lemma match_replacement:
  assumes "CHR 0x0A \<notin> set v" and "x = [] \<or> hd x = CHR 0x0A"
  shows "match_project_number ((''PROJECT_NUMBER = '' @ v) @ x)
           = Some (''PROJECT_NUMBER = '' @ v, x)"
proof -
  have all: "\<forall>c\<in>set v. c \<noteq> CHR 0x0A" using assms(1) by auto
  have x: "takeWhile (\<lambda>c. c \<noteq> CHR 0x0A) x = []" "dropWhile (\<lambda>c. c \<noteq> CHR 0x0A) x = x"
    using assms(2) by (cases x, simp, simp)+
  have t: "takeWhile (\<lambda>c. c \<noteq> CHR 0x0A) (v @ x) = v"
    "dropWhile (\<lambda>c. c \<noteq> CHR 0x0A) (v @ x) = x"
    using all x by simp_all
  have "match_project_number (''PROJECT_NUMBER'' @ ('' = '' @ v @ x))
      = Some (''PROJECT_NUMBER = '' @ v, x)"
    unfolding match_key by (simp add: t)
  then show ?thesis by simp
qed

lemma scan_idempotent:
  assumes "\<And>m. f m = ''PROJECT_NUMBER = '' @ v" and "CHR 0x0A \<notin> set v"
  shows "re_sub_scan f b (re_sub_scan f b s) = re_sub_scan f b s"
  using assms(1)
proof (induction f b s rule: re_sub_scan.induct)
  case (1 f bol)
  then show ?case by simp
next
  case (2 f bol c cs)
  have fP: "\<And>m. \<exists>r. f m = CHR ''P'' # r" using "2.prems" by simp
  show ?case
  proof (cases "if bol then match_project_number (c # cs) else None")
    case None
    then have step: "re_sub_scan f bol (c # cs) = c # re_sub_scan f (c = CHR 0x0A) cs"
      by simp
    have "(if bol then match_project_number (c # re_sub_scan f (c = CHR 0x0A) cs) else None) = None"
      using None no_match_stable [OF fP, of c cs] by (simp split: if_splits)
    then have "re_sub_scan f bol (c # re_sub_scan f (c = CHR 0x0A) cs)
        = c # re_sub_scan f (c = CHR 0x0A) (re_sub_scan f (c = CHR 0x0A) cs)"
      by simp
    with "2.IH"(1) [OF None "2.prems"] step show ?thesis by simp
  next
    case (Some p)
    obtain m rest where p: "p = (m, rest)" by (cases p)
    from Some p have bol: bol and mt: "match_project_number (c # cs) = Some (m, rest)"
      by (simp_all split: if_splits)
    have step: "re_sub_scan f bol (c # cs) = (''PROJECT_NUMBER = '' @ v) @ re_sub_scan f False rest"
      using Some p "2.prems" by simp
    have ih: "re_sub_scan f False (re_sub_scan f False rest) = re_sub_scan f False rest"
      using "2.IH"(2) [OF Some p [symmetric] "2.prems"] .
    have "rest = [] \<or> hd rest = CHR 0x0A" using match_rest(2) [OF mt] .
    then have "re_sub_scan f False rest = [] \<or> hd (re_sub_scan f False rest) = CHR 0x0A"
      by (cases rest) auto
    from match_replacement [OF assms(2) this]
    have "re_sub_scan f True ((''PROJECT_NUMBER = '' @ v) @ re_sub_scan f False rest)
        = (''PROJECT_NUMBER = '' @ v) @ re_sub_scan f False (re_sub_scan f False rest)"
      using "2.prems" by simp
    with ih step bol show ?thesis by simp
  qed
qed

lemma split_lines_nonempty: "split_lines t \<noteq> []"
  by (induction t) (auto split: list.splits)

lemma join_Cons_line: "join sep ((c # l) # ls) = c # join sep (l # ls)"
  by (cases ls) simp_all

lemma join_split_lines: "join [CHR 0x0A] (split_lines t) = t"
proof (induction t)
  case Nil
  then show ?case by simp
next
  case (Cons c cs)
  obtain l ls where s: "split_lines cs = l # ls"
    using split_lines_nonempty [of cs] by (cases "split_lines cs") auto
  with Cons show ?case by (simp add: join_Cons_line)
qed

lemma split_lines_no_newline: "l \<in> set (split_lines t) \<Longrightarrow> CHR 0x0A \<notin> set l"
proof (induction t arbitrary: l)
  case Nil
  then show ?case by simp
next
  case (Cons c cs)
  obtain l' ls where s: "split_lines cs = l' # ls"
    using split_lines_nonempty [of cs] by (cases "split_lines cs") auto
  with Cons.prems Cons.IH show ?case
    by (cases "c = CHR 0x0A") auto
qed

lemma scan_line_rest: "CHR 0x0A \<notin> set l \<Longrightarrow> re_sub_scan f False l = l"
  using scan_copy [of l f "[]"] by simp

lemma match_whole_line:
  assumes "CHR 0x0A \<notin> set l" and "match_project_number l = Some (m, rest)"
  shows "match_project_number (l @ CHR 0x0A # t) = Some (l, CHR 0x0A # t)"
    and "m = l" and "rest = []"
proof -
  from match_prefix [OF assms(2)] obtain x where l: "l = ''PROJECT_NUMBER'' @ x" by blast
  define tw where "tw = takeWhile isspace x"
  from assms(2) obtain s3 where d: "dropWhile isspace x = CHR ''='' # s3"
    and m: "m = ''PROJECT_NUMBER'' @ tw @ ''='' @ takeWhile (\<lambda>c. c \<noteq> CHR 0x0A) s3"
    and r: "rest = dropWhile (\<lambda>c. c \<noteq> CHR 0x0A) s3"
    unfolding l match_key tw_def by (auto split: list.splits if_splits)
  have x: "x = tw @ CHR ''='' # s3"
    using d takeWhile_dropWhile_id [of isspace x] by (simp add: tw_def)
  have tws: "\<forall>c\<in>set tw. isspace c"
    by (auto simp add: tw_def dest: set_takeWhileD)
  have s3: "\<forall>c\<in>set s3. c \<noteq> CHR 0x0A"
    using assms(1) unfolding l x by auto
  then have tk: "takeWhile (\<lambda>c. c \<noteq> CHR 0x0A) s3 = s3" "dropWhile (\<lambda>c. c \<noteq> CHR 0x0A) s3 = []"
    by simp_all
  show "rest = []" using r tk by simp
  show ml: "m = l" unfolding m l tk x by simp
  have dx: "dropWhile isspace ((tw @ CHR ''='' # s3) @ CHR 0x0A # t) = CHR ''='' # s3 @ CHR 0x0A # t"
    using tws by simp
  have tx: "takeWhile isspace ((tw @ CHR ''='' # s3) @ CHR 0x0A # t) = tw"
    using tws by simp
  have "match_project_number (''PROJECT_NUMBER'' @ ((tw @ CHR ''='' # s3) @ CHR 0x0A # t))
      = Some (''PROJECT_NUMBER'' @ tw @ ''='' @ s3, CHR 0x0A # t)"
    unfolding match_key dx tx using s3 by simp
  then show "match_project_number (l @ CHR 0x0A # t) = Some (l, CHR 0x0A # t)"
    unfolding l x by simp
qed

lemma no_match_line:
  assumes "CHR 0x0A \<notin> set l" and "\<not> key_line l" and "\<not> bare_key l"
  shows "match_project_number (l @ CHR 0x0A # t) = None"
proof (cases "prefix ''PROJECT_NUMBER'' l")
  case False
  have "\<not> prefix ''PROJECT_NUMBER'' (l @ CHR 0x0A # t)"
  proof
    assume "prefix ''PROJECT_NUMBER'' (l @ CHR 0x0A # t)"
    with False obtain us where us: "''PROJECT_NUMBER'' = l @ us" "prefix us (CHR 0x0A # t)"
      by (auto simp add: prefix_append)
    from us(1) False have "us \<noteq> []" by auto
    with us(2) obtain us' where "us = CHR 0x0A # us'" by (cases us) auto
    with us(1) have "CHR 0x0A \<in> set ''PROJECT_NUMBER''"
      by (metis in_set_conv_decomp)
    then show False by simp
  qed
  then show ?thesis by (rule match_not_key)
next
  case True
  then obtain x where l: "l = ''PROJECT_NUMBER'' @ x" by (auto simp add: prefix_def)
  define tw where "tw = takeWhile isspace x"
  define s2 where "s2 = dropWhile isspace x"
  have x: "x = tw @ s2" by (simp add: tw_def s2_def)
  have tws: "\<forall>c\<in>set tw. isspace c"
    by (auto simp add: tw_def dest: set_takeWhileD)
  have "\<not> list_all isspace x"
    using assms(3) True unfolding bare_key_def l by simp
  then have "s2 \<noteq> []"
    unfolding s2_def by (simp add: list_all_iff)
  then obtain d ds where s2: "s2 = d # ds" by (cases s2) auto
  have nd: "\<not> isspace d"
    using s2 hd_dropWhile [of isspace x] unfolding s2_def by simp
  have "match_project_number (''PROJECT_NUMBER'' @ x) = None"
    using assms(2) unfolding key_line_def l by blast
  then have deq: "d \<noteq> CHR ''=''"
    unfolding match_key using s2 unfolding s2_def by (auto split: if_splits)
  have "dropWhile isspace ((tw @ d # ds) @ CHR 0x0A # t) = d # ds @ CHR 0x0A # t"
    using tws nd by simp
  then have "match_project_number (''PROJECT_NUMBER'' @ ((tw @ d # ds) @ CHR 0x0A # t)) = None"
    unfolding match_key using deq by simp
  then show ?thesis unfolding l x s2 by simp
qed

lemma scan_line:
  assumes "CHR 0x0A \<notin> set l"
  shows "re_sub_scan f True l = (if key_line l then f l else l)"
    and "\<not> bare_key l \<Longrightarrow>
           re_sub_scan f True (l @ CHR 0x0A # t)
             = (if key_line l then f l else l) @ CHR 0x0A # re_sub_scan f True t"
proof -
  show "re_sub_scan f True l = (if key_line l then f l else l)"
  proof (cases "match_project_number l")
    case None
    then have k: "\<not> key_line l" by (simp add: key_line_def)
    show ?thesis
    proof (cases l)
      case Nil
      with k show ?thesis by simp
    next
      case (Cons c cs)
      with assms have "c \<noteq> CHR 0x0A" "CHR 0x0A \<notin> set cs" by auto
      with None Cons k scan_line_rest [of cs f] show ?thesis by simp
    qed
  next
    case (Some p)
    obtain m rest where p: "p = (m, rest)" by (cases p)
    note w = match_whole_line [OF assms Some [unfolded p]]
    from match_prefix [OF Some [unfolded p]] obtain c cs where l: "l = c # cs" by (cases l) auto
    have "key_line l" using Some by (simp add: key_line_def)
    with Some p w(2,3) show ?thesis unfolding l by simp
  qed
  show "re_sub_scan f True (l @ CHR 0x0A # t)
             = (if key_line l then f l else l) @ CHR 0x0A # re_sub_scan f True t"
    if nb: "\<not> bare_key l"
  proof (cases "match_project_number l")
    case None
    then have k: "\<not> key_line l" by (simp add: key_line_def)
    note n = no_match_line [OF assms k nb, of t]
    show ?thesis
    proof (cases l)
      case Nil
      with n k show ?thesis by simp
    next
      case (Cons c cs)
      with assms have c: "c \<noteq> CHR 0x0A" "CHR 0x0A \<notin> set cs" by auto
      from n Cons have "re_sub_scan f True (l @ CHR 0x0A # t)
          = c # re_sub_scan f False (cs @ CHR 0x0A # t)"
        using c by simp
      also have "re_sub_scan f False (cs @ CHR 0x0A # t) = cs @ re_sub_scan f False (CHR 0x0A # t)"
        using c(2) by (rule scan_copy)
      finally show ?thesis using k Cons by simp
    qed
  next
    case (Some p)
    obtain m rest where p: "p = (m, rest)" by (cases p)
    note w = match_whole_line(1) [OF assms Some [unfolded p], of t]
    from match_prefix [OF Some [unfolded p]] obtain c cs where l: "l = c # cs" by (cases l) auto
    have "key_line l" using Some by (simp add: key_line_def)
    moreover have "re_sub_scan f True ((c # cs) @ CHR 0x0A # t)
        = f l @ re_sub_scan f False (CHR 0x0A # t)"
      using w unfolding l by simp
    ultimately show ?thesis unfolding l by simp
  qed
qed

lemma scan_lines:
  assumes "\<forall>l\<in>set ls. CHR 0x0A \<notin> set l \<and> \<not> bare_key l"
  shows "re_sub_scan f True (join [CHR 0x0A] ls)
           = join [CHR 0x0A] (map (\<lambda>l. if key_line l then f l else l) ls)"
  using assms
proof (induction ls rule: induct_list012)
  case 1
  then show ?case by simp
next
  case (2 x)
  then show ?case using scan_line(1) [of x f] by simp
next
  case (3 x y zs)
  then have "re_sub_scan f True (join [CHR 0x0A] (y # zs))
           = join [CHR 0x0A] (map (\<lambda>l. if key_line l then f l else l) (y # zs))"
    by simp
  moreover have "re_sub_scan f True (x @ CHR 0x0A # join [CHR 0x0A] (y # zs))
      = (if key_line x then f x else x) @ CHR 0x0A # re_sub_scan f True (join [CHR 0x0A] (y # zs))"
    using "3.prems" by (intro scan_line(2)) simp_all
  ultimately show ?case by simp
qed

lemma no_key_lines:
  assumes "\<forall>l\<in>set (split_lines t). \<not> prefix ''PROJECT_NUMBER'' l"
  shows "re_sub_scan f True t = t"
proof -
  have k: "\<not> key_line l" "\<not> bare_key l" "CHR 0x0A \<notin> set l" if "l \<in> set (split_lines t)" for l
    using assms that split_lines_no_newline [of l t]
    by (auto simp add: key_line_def bare_key_def match_not_key)
  then have "re_sub_scan f True (join [CHR 0x0A] (split_lines t))
      = join [CHR 0x0A] (map (\<lambda>l. if key_line l then f l else l) (split_lines t))"
    by (intro scan_lines) auto
  moreover have "map (\<lambda>l. if key_line l then f l else l) (split_lines t) = split_lines t"
    using k(1) by (simp add: map_idI)
  ultimately show ?thesis by (simp add: join_split_lines)
qed

text \<open>\<^verbatim>\<open>update_doxyfile\<close> writes what the substitution makes of the text it read.\<close>

lemma update_doxyfile_writes:
  "d_read_text D DOXYFILE_PATH w = Inr doxyfile \<Longrightarrow>
   doxyfile_sub D project_number doxyfile = Inr updated \<Longrightarrow>
   update_doxyfile D project_number w = d_write_text D DOXYFILE_PATH updated w"
  by (simp add: update_doxyfile_def)

text \<open>
  Claim C7, as amended. For a version without backslash and without newline, patching
  twice gives the same text as patching once. A text with no line that starts with the key
  is returned as it is whenever the substitution returns, and it returns when the version
  has no backslash. For a version without backslash and a text in which no line is the key
  followed by whitespace only, the patch works line by line: a line that starts with the
  key, whitespace and \<^verbatim>\<open>=\<close> becomes \<^verbatim>\<open>PROJECT_NUMBER = \<close> and the version, every other line
  is kept as it is.
\<close>

theorem doxyfile_patch:
  "(CHR 0x5C \<notin> set v \<and> CHR 0x0A \<notin> set v \<longrightarrow>
      (\<exists>t'. doxyfile_sub D v t = Inr t' \<and> doxyfile_sub D v t' = Inr t')) \<and>
   ((\<forall>l\<in>set (split_lines t). \<not> prefix ''PROJECT_NUMBER'' l) \<longrightarrow>
      (CHR 0x5C \<notin> set v \<longrightarrow> doxyfile_sub D v t = Inr t) \<and>
      (\<forall>t'. doxyfile_sub D v t = Inr t' \<longrightarrow> t' = t)) \<and>
   (CHR 0x5C \<notin> set v \<and> (\<forall>l\<in>set (split_lines t). \<not> bare_key l) \<longrightarrow>
      doxyfile_sub D v t = Inr (join [CHR 0x0A] (patch_lines v (split_lines t))))"
proof (intro conjI impI allI)
  assume a: "CHR 0x5C \<notin> set v \<and> CHR 0x0A \<notin> set v"
  then have "doxyfile_sub D v s = Inr (re_sub_scan (\<lambda>m. ''PROJECT_NUMBER = '' @ v) True s)" for s
    by (simp add: doxyfile_sub_def re_sub_project_number_def)
  moreover have "re_sub_scan (\<lambda>m. ''PROJECT_NUMBER = '' @ v) True
      (re_sub_scan (\<lambda>m. ''PROJECT_NUMBER = '' @ v) True t)
      = re_sub_scan (\<lambda>m. ''PROJECT_NUMBER = '' @ v) True t"
    using a by (intro scan_idempotent [where v = v]) simp_all
  ultimately show "\<exists>t'. doxyfile_sub D v t = Inr t' \<and> doxyfile_sub D v t' = Inr t'"
    by simp
next
  assume n: "\<forall>l\<in>set (split_lines t). \<not> prefix ''PROJECT_NUMBER'' l"
  {
    assume "CHR 0x5C \<notin> set v"
    then show "doxyfile_sub D v t = Inr t"
      using no_key_lines [OF n] by (simp add: doxyfile_sub_def re_sub_project_number_def)
  next
    fix t'
    assume "doxyfile_sub D v t = Inr t'"
    then show "t' = t"
      using no_key_lines [OF n]
      by (auto simp add: doxyfile_sub_def re_sub_project_number_def split: if_splits sum.splits)
  }
next
  assume a: "CHR 0x5C \<notin> set v \<and> (\<forall>l\<in>set (split_lines t). \<not> bare_key l)"
  then have "\<forall>l\<in>set (split_lines t). CHR 0x0A \<notin> set l \<and> \<not> bare_key l"
    using split_lines_no_newline [of _ t] by auto
  from scan_lines [OF this, of "\<lambda>m. ''PROJECT_NUMBER = '' @ v"] a
  show "doxyfile_sub D v t = Inr (join [CHR 0x0A] (patch_lines v (split_lines t)))"
    by (simp add: doxyfile_sub_def re_sub_project_number_def patch_lines_def join_split_lines)
qed

theorem doxyfile_patch_witness:
  "doxyfile_sub (example_docs Map.empty git_script []) ''3.9.2''
      ''PROJECT_NAME = FastLED\<newline>PROJECT_NUMBER = 1.0\<newline>INPUT = src''
     = Inr ''PROJECT_NAME = FastLED\<newline>PROJECT_NUMBER = 3.9.2\<newline>INPUT = src'' \<and>
   doxyfile_sub (example_docs Map.empty git_script []) ''3.9.2''
      ''PROJECT_NAME = FastLED\<newline>PROJECT_NUMBER = 3.9.2\<newline>INPUT = src''
     = Inr ''PROJECT_NAME = FastLED\<newline>PROJECT_NUMBER = 3.9.2\<newline>INPUT = src'' \<and>
   doxyfile_sub (example_docs Map.empty git_script []) ''3.9.2'' ''INPUT = src\<newline>QUIET = YES''
     = Inr ''INPUT = src\<newline>QUIET = YES''"
proof -
  let ?D = "example_docs Map.empty git_script []"
  let ?t = "''PROJECT_NAME = FastLED\<newline>PROJECT_NUMBER = 1.0\<newline>INPUT = src''"
  have v: "CHR 0x5C \<notin> set ''3.9.2'' \<and> CHR 0x0A \<notin> set ''3.9.2''" by simp
  have ls: "split_lines ?t = [''PROJECT_NAME = FastLED'', ''PROJECT_NUMBER = 1.0'', ''INPUT = src'']"
    by simp
  have nb: "\<forall>l\<in>set (split_lines ?t). \<not> bare_key l"
    unfolding ls by (simp add: bare_key_def isspace_def)
  have p: "join [CHR 0x0A] (patch_lines ''3.9.2'' (split_lines ?t))
      = ''PROJECT_NAME = FastLED\<newline>PROJECT_NUMBER = 3.9.2\<newline>INPUT = src''"
    unfolding ls by (simp add: patch_lines_def key_line_def match_project_number_def isspace_def)
  have nk: "\<forall>l\<in>set (split_lines ''INPUT = src\<newline>QUIET = YES''). \<not> prefix ''PROJECT_NUMBER'' l"
    by simp
  note a = doxyfile_patch [of "''3.9.2''" ?D ?t]
  note b = doxyfile_patch [of "''3.9.2''" ?D "''INPUT = src\<newline>QUIET = YES''"]
  from a v nb p have 1: "doxyfile_sub ?D ''3.9.2'' ?t
     = Inr ''PROJECT_NAME = FastLED\<newline>PROJECT_NUMBER = 3.9.2\<newline>INPUT = src''"
    by simp
  from a v obtain t' where "doxyfile_sub ?D ''3.9.2'' ?t = Inr t'"
    "doxyfile_sub ?D ''3.9.2'' t' = Inr t'" by blast
  with 1 have 2: "doxyfile_sub ?D ''3.9.2''
      ''PROJECT_NAME = FastLED\<newline>PROJECT_NUMBER = 3.9.2\<newline>INPUT = src''
     = Inr ''PROJECT_NAME = FastLED\<newline>PROJECT_NUMBER = 3.9.2\<newline>INPUT = src''"
    by simp
  from b v nk have 3: "doxyfile_sub ?D ''3.9.2'' ''INPUT = src\<newline>QUIET = YES''
     = Inr ''INPUT = src\<newline>QUIET = YES''"
    by blast
  from 1 2 3 show ?thesis by blast
qed

text \<open>
  Claim C7 as stated fails. With a newline as the version, patching \<^verbatim>\<open>PROJECT_NUMBER=0\<close>
  once and twice gives different texts. And a match goes over line ends between the key
  and \<^verbatim>\<open>=\<close>: in the third text the line \<^verbatim>\<open>= 0\<close>, which does not start with the key, is
  taken into the replaced text.
\<close>

theorem doxyfile_patch_counterexample:
  "doxyfile_sub (example_docs Map.empty git_script []) [CHR 0x0A] ''PROJECT_NUMBER=0''
     = Inr ''PROJECT_NUMBER = \<newline>'' \<and>
   doxyfile_sub (example_docs Map.empty git_script []) [CHR 0x0A] ''PROJECT_NUMBER = \<newline>''
     = Inr ''PROJECT_NUMBER = \<newline>\<newline>'' \<and>
   doxyfile_sub (example_docs Map.empty git_script []) ''1.0''
      ''PROJECT_NUMBER\<newline>= 0\<newline>INPUT = src''
     = Inr ''PROJECT_NUMBER = 1.0\<newline>INPUT = src''"
  by (simp add: doxyfile_sub_def re_sub_project_number_def match_project_number_def isspace_def)

end
